theory Spec2Isabelle
  imports Complex_Main "HOL-Library.Signed_Division" "HOL-Library.Code_Target_Numeral"
begin

section \<open>Face detection pipeline of \<^verbatim>\<open>main.cpp\<close>\<close>

text \<open>
  A shallow embedding of class \<^verbatim>\<open>FaceDetector\<close> (with its base
  \<^verbatim>\<open>VideoProcessor\<close>). The vision library is outside the program: a frame is
  an abstract picture of type \<open>'p\<close> together with the drawing calls made on it, the
  cascade classifier is a function from frames to rectangles, the camera delivers one
  frame per read, and the disk is a finite list of path entries.
\<close>

subsection \<open>Library values: strings of numbers\<close>

text \<open>\<^verbatim>\<open>std::to_string\<close> on an unsigned value: the decimal digits, most
  significant first, no leading zero except for 0 itself.\<close>

definition digit_char :: "nat \<Rightarrow> char" where
  "digit_char d = ''0123456789'' ! (d mod 10)"

fun to_string_nat :: "nat \<Rightarrow> string" where
  "to_string_nat n =
     (if n < 10 then [digit_char n]
      else to_string_nat (n div 10) @ [digit_char (n mod 10)])"

declare to_string_nat.simps [simp del]

text \<open>\<^verbatim>\<open>std::to_string\<close> on a signed value (\<^verbatim>\<open>int\<close>,
  \<^verbatim>\<open>time_t\<close>): a minus sign in front of the digits of a negative number.\<close>

definition to_string :: "int \<Rightarrow> string" where
  "to_string k = (if k < 0 then CHR ''-'' # to_string_nat (nat (- k)) else to_string_nat (nat k))"

subsection \<open>Distances: binary64 arithmetic\<close>

text \<open>
  A \<^verbatim>\<open>double\<close> is an IEEE 754 binary64 number: a finite value, one of the two
  zeros (\<open>Finite 0\<close> is the positive one), an infinity, or a NaN. Every operation
  computes the exact real result and rounds it to the nearest binary64 value, a tie
  going to the neighbour with the even significand; a result of magnitude
  \<open>2 ^ 1024\<close> or more after rounding is an infinity, and a result too small is a
  subnormal number or a zero with the sign of the exact result.
\<close>

datatype dbl = Finite real | NegZero | PlusInf | MinusInf | NaN

text \<open>The nearest integer to a non-negative number, a tie going to the even one.\<close>

definition round_half_even :: "real \<Rightarrow> nat" where
  "round_half_even t =
     (let f = nat \<lfloor>t\<rfloor>; r = t - of_int \<lfloor>t\<rfloor>
      in if r < 1 / 2 then f
         else if r > 1 / 2 then f + 1
         else if even f then f else f + 1)"

text \<open>The binary exponent of a non-negative number, kept within the exponents of
  binary64: the greatest \<open>e\<close> from \<open>- 1021\<close> to \<open>1023\<close> with \<open>2 ^ e\<close> at most the number,
  and \<open>- 1022\<close> (the exponent of the subnormal numbers) if there is none.\<close>

primrec binade_upto :: "real \<Rightarrow> nat \<Rightarrow> int" where
  "binade_upto a 0 = - 1022"
| "binade_upto a (Suc k) =
     (if 2 powi (int (Suc k) - 1022) \<le> a then int (Suc k) - 1022 else binade_upto a k)"

definition binade :: "real \<Rightarrow> int" where
  "binade a = binade_upto a 2045"

text \<open>Rounding a non-negative number to 53 significant bits: the multiple of
  \<open>2 ^ (e - 52)\<close> nearest to it.\<close>

definition nearest :: "real \<Rightarrow> real" where
  "nearest a = (let q = binade a - 52 in of_nat (round_half_even (a / 2 powi q)) * 2 powi q)"

definition round64 :: "real \<Rightarrow> dbl" where
  "round64 x =
     (let r = nearest \<bar>x\<bar>
      in if 2 ^ 1024 \<le> r then (if x < 0 then MinusInf else PlusInf)
         else if r = 0 then (if x < 0 then NegZero else Finite 0)
         else Finite (if x < 0 then - r else r))"

fun is_nan :: "dbl \<Rightarrow> bool" where
  "is_nan NaN = True"
| "is_nan d = False"

fun is_inf :: "dbl \<Rightarrow> bool" where
  "is_inf PlusInf = True"
| "is_inf MinusInf = True"
| "is_inf d = False"

fun is_zero :: "dbl \<Rightarrow> bool" where
  "is_zero (Finite x) = (x = 0)"
| "is_zero NegZero = True"
| "is_zero d = False"

fun signbit :: "dbl \<Rightarrow> bool" where
  "signbit (Finite x) = (x < 0)"
| "signbit NegZero = True"
| "signbit MinusInf = True"
| "signbit d = False"

fun value_of :: "dbl \<Rightarrow> real" where
  "value_of (Finite x) = x"
| "value_of d = 0"

definition signed_zero :: "bool \<Rightarrow> dbl" where
  "signed_zero negative = (if negative then NegZero else Finite 0)"

definition signed_inf :: "bool \<Rightarrow> dbl" where
  "signed_inf negative = (if negative then MinusInf else PlusInf)"

text \<open>\<^verbatim>\<open>a * b\<close> on \<^verbatim>\<open>double\<close>: a NaN operand or infinity times zero gives NaN,
  infinities and zeros keep the sign of the product.\<close>

definition dbl_mul :: "dbl \<Rightarrow> dbl \<Rightarrow> dbl" where
  "dbl_mul a b =
     (if is_nan a \<or> is_nan b then NaN
      else if is_inf a \<or> is_inf b then
        (if is_zero a \<or> is_zero b then NaN else signed_inf (signbit a \<noteq> signbit b))
      else if is_zero a \<or> is_zero b then signed_zero (signbit a \<noteq> signbit b)
      else round64 (value_of a * value_of b))"

text \<open>\<^verbatim>\<open>a / b\<close> on \<^verbatim>\<open>double\<close>: nothing traps; a non-zero number divided by zero is an
  infinity, zero by zero and infinity by infinity are NaN.\<close>

definition dbl_div :: "dbl \<Rightarrow> dbl \<Rightarrow> dbl" where
  "dbl_div a b =
     (if is_nan a \<or> is_nan b then NaN
      else if is_inf a then (if is_inf b then NaN else signed_inf (signbit a \<noteq> signbit b))
      else if is_inf b then signed_zero (signbit a \<noteq> signbit b)
      else if is_zero b then (if is_zero a then NaN else signed_inf (signbit a \<noteq> signbit b))
      else if is_zero a then signed_zero (signbit a \<noteq> signbit b)
      else round64 (value_of a / value_of b))"

text \<open>The conversion of an \<^verbatim>\<open>int\<close> operand to \<^verbatim>\<open>double\<close> (exact for every
  32-bit value).\<close>

definition dbl_of_int :: "int \<Rightarrow> dbl" where
  "dbl_of_int k = round64 (of_int k)"

text \<open>\<^verbatim>\<open>a < b\<close> on \<^verbatim>\<open>double\<close>: false when an operand is NaN, the two zeros are
  equal.\<close>

definition dbl_less :: "dbl \<Rightarrow> dbl \<Rightarrow> bool" where
  "dbl_less a b =
     (if is_nan a \<or> is_nan b then False
      else if a = MinusInf then b \<noteq> MinusInf
      else if b = PlusInf then a \<noteq> PlusInf
      else if a = PlusInf \<or> b = MinusInf then False
      else value_of a < value_of b)"

text \<open>\<^verbatim>\<open>return (realFaceWidth * focalLength) / faceWidthInPixels;\<close> The two fields
  are the first two arguments.\<close>

definition estimateDistance :: "dbl \<Rightarrow> dbl \<Rightarrow> int \<Rightarrow> dbl" where
  "estimateDistance realFaceWidth focalLength faceWidthInPixels =
     dbl_div (dbl_mul realFaceWidth focalLength) (dbl_of_int faceWidthInPixels)"

text \<open>\<^verbatim>\<open>ss << fixed << setprecision(2) << distance\<close>: the value rounded to the
  nearest hundredth (a tie goes to the even neighbour), written with exactly two
  decimals; the sign is kept even when the magnitude rounds to zero. How a NaN is
  written depends on the platform; it is \<open>nan\<close> here.\<close>

definition fixed2 :: "real \<Rightarrow> string" where
  "fixed2 x =
     (let q = round_half_even (\<bar>x\<bar> * 100)
      in (if x < 0 then ''-'' else '''') @ to_string_nat (q div 100)
         @ ''.'' @ [digit_char (q div 10), digit_char q])"

fun show_fixed2 :: "dbl \<Rightarrow> string" where
  "show_fixed2 (Finite x) = fixed2 x"
| "show_fixed2 NegZero = ''-0.00''"
| "show_fixed2 PlusInf = ''inf''"
| "show_fixed2 MinusInf = ''-inf''"
| "show_fixed2 NaN = ''nan''"

subsection \<open>Frames, rectangles and the disk\<close>

text \<open>\<^verbatim>\<open>cv::Rect\<close>: top-left corner, width and height, all \<^verbatim>\<open>int\<close>.\<close>

datatype rect = Rect (rect_x: int) (rect_y: int) (rect_width: int) (rect_height: int)

definition tl_point :: "rect \<Rightarrow> int \<times> int" where
  "tl_point r = (rect_x r, rect_y r)"

text \<open>The drawing calls of the source. Colour, line thickness, font and scale are
  constants there and are left out.\<close>

datatype draw_op = Rectangle rect | PutText string "int \<times> int"

text \<open>\<^verbatim>\<open>cv::Mat\<close>: empty, or a captured picture with the drawings made on it so
  far, oldest first.\<close>

datatype 'p mat = EmptyMat | Image 'p "draw_op list"

fun draw :: "draw_op \<Rightarrow> 'p mat \<Rightarrow> 'p mat" where
  "draw d EmptyMat = EmptyMat"
| "draw d (Image p ds) = Image p (ds @ [d])"

fun drawn :: "'p mat \<Rightarrow> draw_op list" where
  "drawn EmptyMat = []"
| "drawn (Image p ds) = ds"

text \<open>The disk: a finite list of path entries, the most recent first. A face image
  file holds a region of a frame (\<^verbatim>\<open>frame(faces[i])\<close> is a view of the frame
  as drawn so far).\<close>

datatype 'p entry = Directory | ImageFile "'p mat" rect

type_synonym 'p disk = "(string \<times> 'p entry) list"

definition fs_exists :: "'p disk \<Rightarrow> string \<Rightarrow> bool" where
  "fs_exists d path = (path \<in> set (map fst d))"

text \<open>\<^verbatim>\<open>filesystem::create_directory\<close> adds the directory when no such path exists
  and leaves the disk alone otherwise; failures of the file system are not part of
  the model.\<close>

definition create_directory :: "'p disk \<Rightarrow> string \<Rightarrow> 'p disk" where
  "create_directory d path = (if fs_exists d path then d else (path, Directory) # d)"

text \<open>\<^verbatim>\<open>imwrite\<close> is taken to succeed (the source ignores its result).\<close>

definition imwrite :: "'p disk \<Rightarrow> string \<Rightarrow> 'p mat \<Rightarrow> rect \<Rightarrow> 'p disk" where
  "imwrite d path m r = (path, ImageFile m r) # d"

text \<open>\<^verbatim>\<open>std::vector::resize(n, v)\<close>: the first \<open>n\<close> elements are kept, new
  positions are filled with \<open>v\<close>.\<close>

definition vector_resize :: "'a list \<Rightarrow> nat \<Rightarrow> 'a \<Rightarrow> 'a list" where
  "vector_resize xs n v = take n xs @ replicate (n - length xs) v"

subsection \<open>The detector object and its surroundings\<close>

text \<open>What the program cannot control: the frame the camera delivers at its \<open>k\<close>-th
  read, the rectangles the loaded cascade finds in a frame (grey conversion and the
  scan parameters 1.1, 3, 0, 30x30 included), and the \<^verbatim>\<open>time_t\<close> the system
  clock returns at its \<open>k\<close>-th reading.\<close>

record 'p env =
  camera :: "nat \<Rightarrow> 'p mat"
  detectMultiScale :: "'p mat \<Rightarrow> rect list"
  system_clock :: "nat \<Rightarrow> int"

text \<open>The fields of \<^verbatim>\<open>FaceDetector\<close> (the first eight, as declared), followed
  by the state of the surroundings: how often camera and clock were read, the disk,
  and the lines written to \<^verbatim>\<open>cerr\<close>. \<^verbatim>\<open>videoWriter\<close> is the list of
  frames handed to the video sink. The two \<^verbatim>\<open>int\<close> fields are unbounded
  integers here; from counter 0 and a speed-up factor of at least 1 the counter never
  exceeds the factor, so nothing overflows in the source either.\<close>

record 'p FaceDetector =
  frame :: "'p mat"
  faces :: "rect list"
  facesSaved :: "bool list"
  focalLength :: dbl
  realFaceWidth :: dbl
  videoWriter :: "'p mat list"
  frameSkipCount :: int
  frameCounter :: int
  video_reads :: nat
  clock_reads :: nat
  disk :: "'p disk"
  cerr :: "string list"

text \<open>\<^verbatim>\<open>runtime_error\<close> is the only exception the source throws. The other two
  values stand for undefined behaviour of C++: \<^verbatim>\<open>%\<close> with a zero divisor, and
  \<^verbatim>\<open>facesSaved[i]\<close> beyond the end of the vector.\<close>

datatype error = runtime_error string | modulo_by_zero | index_out_of_range

text \<open>A member function either returns or throws; the object is there in both
  cases.\<close>

datatype 'a outcome = Returned 'a | Thrown error 'a

fun state_of :: "'a outcome \<Rightarrow> 'a" where
  "state_of (Returned s) = s"
| "state_of (Thrown e s) = s"

fun thrown :: "'a outcome \<Rightarrow> error option" where
  "thrown (Returned s) = None"
| "thrown (Thrown e s) = Some e"

definition SourceUnavailable :: error where
  "SourceUnavailable = runtime_error ''Error: Could not open the camera.''"

definition ModelLoadFailed :: error where
  "ModelLoadFailed = runtime_error ''Error: Could not load face cascade.''"

definition SinkUnavailable :: error where
  "SinkUnavailable = runtime_error ''Error: Could not open the video writer.''"

definition CaptureFailed :: error where
  "CaptureFailed = runtime_error ''Error: Could not read a frame from the camera.''"

text \<open>The constructors of \<^verbatim>\<open>VideoProcessor\<close> and \<^verbatim>\<open>FaceDetector\<close>. The three
  flags say whether the camera opened, the cascade loaded and the video writer
  opened; \<open>d\<close> is the disk at that moment.\<close>

definition FaceDetector_new ::
  "bool \<Rightarrow> bool \<Rightarrow> bool \<Rightarrow> dbl \<Rightarrow> dbl \<Rightarrow> int \<Rightarrow> 'p disk \<Rightarrow> error + 'p FaceDetector" where
  "FaceDetector_new camera_opened cascade_loaded writer_opened fl rw speedUpFactor d =
     (if \<not> camera_opened then Inl SourceUnavailable
      else if \<not> cascade_loaded then Inl ModelLoadFailed
      else if \<not> writer_opened then Inl SinkUnavailable
      else Inr \<lparr>frame = EmptyMat, faces = [], facesSaved = [],
                focalLength = fl, realFaceWidth = rw, videoWriter = [],
                frameSkipCount = speedUpFactor - 1, frameCounter = 0,
                video_reads = 0, clock_reads = 0, disk = d, cerr = []\<rparr>)"

subsection \<open>\<^verbatim>\<open>getUniqueFilename\<close>\<close>

definition suffixed :: "int \<Rightarrow> int \<Rightarrow> string" where
  "suffixed now count = ''faces/face_'' @ to_string now @ ''_'' @ to_string count @ ''.jpg''"

text \<open>Decimal strings determine their numbers: distinct suffix counters give distinct
  candidate names. The loop of \<^verbatim>\<open>getUniqueFilename\<close> terminates for this
  reason.\<close>

lemma digit_char_inj: "a < 10 \<Longrightarrow> b < 10 \<Longrightarrow> digit_char a = digit_char b \<Longrightarrow> a = b"
proof -
  assume a: "a < 10" and b: "b < 10" and e: "digit_char a = digit_char b"
  have d: "distinct ''0123456789''" by simp
  have "''0123456789'' ! a = ''0123456789'' ! b" using e a b by (simp add: digit_char_def)
  with d a b show "a = b" by (simp add: nth_eq_iff_index_eq)
qed

lemma digit_char_in: "digit_char d \<in> set ''0123456789''"
proof -
  have "d mod 10 < length ''0123456789''" by simp
  then have "''0123456789'' ! (d mod 10) \<in> set ''0123456789''" by (rule nth_mem)
  then show ?thesis by (simp only: digit_char_def)
qed

lemma to_string_nat_digits: "set (to_string_nat n) \<subseteq> set ''0123456789''"
proof (induction n rule: to_string_nat.induct)
  case (1 n)
  show ?case
  proof (cases "n < 10")
    case True
    then show ?thesis using digit_char_in [of n] by (subst to_string_nat.simps) simp
  next
    case False
    then show ?thesis using 1 digit_char_in [of "n mod 10"] by (subst to_string_nat.simps) simp
  qed
qed

lemma to_string_nat_nonempty: "to_string_nat n \<noteq> []"
  by (subst to_string_nat.simps) simp

lemma to_string_nat_inj: "to_string_nat n = to_string_nat m \<Longrightarrow> n = m"
proof (induction n arbitrary: m rule: to_string_nat.induct)
  case (1 n)
  show ?case
  proof (cases "n < 10")
    case n: True
    show ?thesis
    proof (cases "m < 10")
      case True
      with n 1(2) show ?thesis
        by (simp add: to_string_nat.simps [of n] to_string_nat.simps [of m] digit_char_inj)
    next
      case False
      with n 1(2) to_string_nat_nonempty [of "m div 10"] show ?thesis
        by (simp add: to_string_nat.simps [of n] to_string_nat.simps [of m])
    qed
  next
    case n: False
    show ?thesis
    proof (cases "m < 10")
      case True
      with n 1(2) to_string_nat_nonempty [of "n div 10"] show ?thesis
        by (simp add: to_string_nat.simps [of n] to_string_nat.simps [of m])
    next
      case False
      with n 1(2) have e: "to_string_nat (n div 10) = to_string_nat (m div 10)"
        and d: "digit_char (n mod 10) = digit_char (m mod 10)"
        by (simp_all add: to_string_nat.simps [of n] to_string_nat.simps [of m])
      from 1(1) [OF n e] have "n div 10 = m div 10" .
      moreover from d have "n mod 10 = m mod 10" by (simp add: digit_char_inj)
      ultimately show ?thesis by (metis div_mult_mod_eq)
    qed
  qed
qed

lemma to_string_inj: "to_string j = to_string k \<Longrightarrow> j = k"
proof -
  assume e: "to_string j = to_string k"
  have nd: "\<And>n. hd (to_string_nat n) \<noteq> CHR ''-''"
  proof -
    fix n
    have "hd (to_string_nat n) \<in> set (to_string_nat n)" by (simp add: to_string_nat_nonempty)
    with to_string_nat_digits [of n] have "hd (to_string_nat n) \<in> set ''0123456789''" by blast
    then show "hd (to_string_nat n) \<noteq> CHR ''-''" by auto
  qed
  show "j = k"
  proof (cases "j < 0")
    case j: True
    show ?thesis
    proof (cases "k < 0")
      case True
      with j e have "to_string_nat (nat (- j)) = to_string_nat (nat (- k))" by (simp add: to_string_def)
      then have "nat (- j) = nat (- k)" by (rule to_string_nat_inj)
      with j True show ?thesis by simp
    next
      case False
      with j e have "CHR ''-'' # to_string_nat (nat (- j)) = to_string_nat (nat k)" by (simp add: to_string_def)
      then have "hd (to_string_nat (nat k)) = CHR ''-''" by (metis list.sel(1))
      with nd show ?thesis by blast
    qed
  next
    case j: False
    show ?thesis
    proof (cases "k < 0")
      case True
      with j e have "CHR ''-'' # to_string_nat (nat (- k)) = to_string_nat (nat j)" by (simp add: to_string_def)
      then have "hd (to_string_nat (nat j)) = CHR ''-''" by (metis list.sel(1))
      with nd show ?thesis by blast
    next
      case False
      with j e have "to_string_nat (nat j) = to_string_nat (nat k)" by (simp add: to_string_def)
      then have "nat j = nat k" by (rule to_string_nat_inj)
      with j False show ?thesis by simp
    qed
  qed
qed

lemma suffixed_inj: "suffixed now j = suffixed now k \<Longrightarrow> j = k"
  by (simp add: suffixed_def to_string_inj)

lemma finite_colliding: "finite {k. fs_exists d (suffixed now k)}"
proof -
  have "{k. fs_exists d (suffixed now k)} = suffixed now -` set (map fst d)"
    by (auto simp: fs_exists_def)
  moreover have "finite (suffixed now -` set (map fst d))"
    by (rule finite_vimageI) (auto simp: inj_on_def dest: suffixed_inj)
  ultimately show ?thesis by simp
qed

text \<open>The loop \<^verbatim>\<open>while (filesystem::exists(newFilename)) newFilename = ... count++ ...\<close>
  on its two variables; \<^verbatim>\<open>count\<close> is an unbounded integer here (it stays at or below
  the number of entries on the disk plus one).\<close>

function uniqueLoop :: "'p disk \<Rightarrow> int \<Rightarrow> int \<Rightarrow> string \<Rightarrow> int \<times> string" where
  "uniqueLoop d now count newFilename =
     (if fs_exists d newFilename then uniqueLoop d now (count + 1) (suffixed now count)
      else (count, newFilename))"
  by pat_completeness auto
termination
proof (relation "measure (\<lambda>(d, now, count, newFilename).
          (if fs_exists d newFilename then 1 else 0)
          + 2 * card {k. count \<le> k \<and> fs_exists d (suffixed now k)})")
  show "wf (measure (\<lambda>(d :: 'p disk, now, count, newFilename).
          (if fs_exists d newFilename then 1 else 0)
          + 2 * card {k. count \<le> k \<and> fs_exists d (suffixed now k)}))" by simp
next
  fix d :: "'p disk" and now count :: int and newFilename :: string
  assume ex: "fs_exists d newFilename"
  let ?A = "\<lambda>c. {k. c \<le> k \<and> fs_exists d (suffixed now k)}"
  have fin: "finite (?A count)" using finite_colliding [of d now] by (rule rev_finite_subset) auto
  have "card (?A count) = (if fs_exists d (suffixed now count) then 1 else 0) + card (?A (count + 1))"
  proof (cases "fs_exists d (suffixed now count)")
    case True
    have "?A count = insert count (?A (count + 1))" using True by (auto simp: order_le_less)
    moreover have "count \<notin> ?A (count + 1)" by simp
    moreover have "finite (?A (count + 1))" using fin by (rule rev_finite_subset) auto
    ultimately show ?thesis using True by simp
  next
    case False
    then have "?A count = ?A (count + 1)" by (auto simp: order_le_less)
    then show ?thesis using False by simp
  qed
  with ex show "((d, now, count + 1, suffixed now count), (d, now, count, newFilename))
      \<in> measure (\<lambda>(d, now, count, newFilename).
          (if fs_exists d newFilename then 1 else 0)
          + 2 * card {k. count \<le> k \<and> fs_exists d (suffixed now k)})"
    by simp
qed

declare uniqueLoop.simps [simp del]

definition getUniqueFilename :: "'p env \<Rightarrow> 'p FaceDetector \<Rightarrow> string \<times> 'p FaceDetector" where
  "getUniqueFilename e s =
     (let s1 = s\<lparr>disk := create_directory (disk s) ''faces''\<rparr>;
          now = system_clock e (clock_reads s1);
          s2 = s1\<lparr>clock_reads := clock_reads s1 + 1\<rparr>;
          filename = ''faces/face_'' @ to_string now @ ''.jpg''
      in (snd (uniqueLoop (disk s2) now 1 filename), s2))"

subsection \<open>\<^verbatim>\<open>annotateFrame\<close>\<close>

text \<open>The text of \<^verbatim>\<open>labelText\<close> for index \<open>i\<close> and rectangle \<open>r\<close>:
  \<^verbatim>\<open>"Face " + to_string(i + 1)\<close>, then \<^verbatim>\<open>" Dist: " + ss.str() + " cm"\<close> with
  the distance estimated from the rectangle's width. The fields
  \<^verbatim>\<open>realFaceWidth\<close> and \<^verbatim>\<open>focalLength\<close> are the first two arguments.\<close>

definition labelText :: "dbl \<Rightarrow> dbl \<Rightarrow> nat \<Rightarrow> rect \<Rightarrow> string" where
  "labelText rw fl i r =
     (let labelText0 = ''Face '' @ to_string_nat (i + 1);
          distance = estimateDistance rw fl (rect_width r)
      in labelText0 @ '' Dist: '' @ show_fixed2 distance @ '' cm'')"

text \<open>The body of the loop for index \<open>i\<close> (the loop calls it with
  \<open>i < faces.size()\<close> only).\<close>

definition annotateFace :: "'p env \<Rightarrow> nat \<Rightarrow> 'p FaceDetector \<Rightarrow> 'p FaceDetector outcome" where
  "annotateFace e i s =
     (let s1 = s\<lparr>frame := draw (Rectangle (faces s ! i)) (frame s)\<rparr>;
          detectedFace = (frame s1, faces s1 ! i)
      in if length (facesSaved s1) \<le> i then Thrown index_out_of_range s1
         else
           let s2 = (if \<not> facesSaved s1 ! i then
                       let (filename, sa) = getUniqueFilename e s1;
                           sb = sa\<lparr>disk := imwrite (disk sa) filename (fst detectedFace) (snd detectedFace)\<rparr>
                       in sb\<lparr>facesSaved := (facesSaved sb)[i := True]\<rparr>
                     else s1)
           in Returned (s2\<lparr>frame := draw (PutText (labelText (realFaceWidth s2) (focalLength s2) i (faces s2 ! i))
                                              (tl_point (faces s2 ! i))) (frame s2)\<rparr>))"

lemma getUniqueFilename_faces: "faces (snd (getUniqueFilename e s)) = faces s"
  by (simp add: getUniqueFilename_def Let_def)

lemma annotateFace_faces: "faces (state_of (annotateFace e i s)) = faces s"
  by (simp add: annotateFace_def Let_def split_def getUniqueFilename_faces)

text \<open>\<^verbatim>\<open>for (size_t i = 0; i < faces.size(); ++i) { ... }\<close>, entered at index
  \<open>i\<close>.\<close>

function annotateLoop :: "'p env \<Rightarrow> nat \<Rightarrow> 'p FaceDetector \<Rightarrow> 'p FaceDetector outcome" where
  "annotateLoop e i s =
     (if i < length (faces s) then
        (case annotateFace e i s of
           Thrown err s' \<Rightarrow> Thrown err s'
         | Returned s' \<Rightarrow> annotateLoop e (i + 1) s')
      else Returned s)"
  by pat_completeness auto
termination
proof (relation "measure (\<lambda>(e, i, s). length (faces s) - i)")
  show "wf (measure (\<lambda>(e :: 'p env, i, s :: 'p FaceDetector). length (faces s) - i))" by simp
next
  fix e :: "'p env" and i :: nat and s s' :: "'p FaceDetector"
  assume i: "i < length (faces s)" and r: "annotateFace e i s = Returned s'"
  from r have "faces s' = faces s" using annotateFace_faces [of e i s] by simp
  with i show "((e, i + 1, s'), (e, i, s)) \<in> measure (\<lambda>(e, i, s). length (faces s) - i)"
    by simp
qed

declare annotateLoop.simps [simp del]

text \<open>\<^verbatim>\<open>to_string(faces.size()) + " face" + (faces.size() > 1 ? "s" : "") + " found"\<close>\<close>

definition faceMessage :: "nat \<Rightarrow> string" where
  "faceMessage n = to_string_nat n @ '' face'' @ (if n > 1 then ''s'' else '''') @ '' found''"

definition annotateFrame :: "'p env \<Rightarrow> 'p FaceDetector \<Rightarrow> 'p FaceDetector outcome" where
  "annotateFrame e s =
     (let message = faceMessage (length (faces s))
      in case annotateLoop e 0 s of
           Thrown err s' \<Rightarrow> Thrown err s'
         | Returned s' \<Rightarrow> Returned (s'\<lparr>frame := draw (PutText message (10, 40)) (frame s')\<rparr>))"

subsection \<open>\<^verbatim>\<open>processFrame\<close> and the entry loop\<close>

text \<open>\<^verbatim>\<open>if (facesSaved.size() != faces.size()) facesSaved.resize(faces.size(), false);\<close>\<close>

definition resizeFacesSaved :: "'p FaceDetector \<Rightarrow> 'p FaceDetector" where
  "resizeFacesSaved s =
     (if length (facesSaved s) \<noteq> length (faces s)
      then s\<lparr>facesSaved := vector_resize (facesSaved s) (length (faces s)) False\<rparr>
      else s)"

definition processFrame :: "'p env \<Rightarrow> 'p FaceDetector \<Rightarrow> 'p FaceDetector outcome" where
  "processFrame e s =
     (let s1 = s\<lparr>frame := camera e (video_reads s), video_reads := video_reads s + 1\<rparr>
      in if frame s1 = EmptyMat then
           Thrown CaptureFailed
             (s1\<lparr>cerr := cerr s1 @ [''Error: Could not read a frame from the camera.'']\<rparr>)
         else
           let s2 = s1\<lparr>frameCounter := frameCounter s1 + 1\<rparr>
           in if frameSkipCount s2 + 1 = 0 then Thrown modulo_by_zero s2
              else if frameCounter s2 smod (frameSkipCount s2 + 1) \<noteq> 0 then Returned s2
              else
                let s3 = s2\<lparr>frameCounter := 0\<rparr>;
                    s4 = s3\<lparr>faces := detectMultiScale e (frame s3)\<rparr>;
                    s5 = resizeFacesSaved s4
                in case annotateFrame e s5 of
                     Thrown err s6 \<Rightarrow> Thrown err s6
                   | Returned s6 \<Rightarrow> Returned (s6\<lparr>videoWriter := videoWriter s6 @ [frame s6]\<rparr>))"

text \<open>The first \<open>n\<close> rounds of \<^verbatim>\<open>while (true) { faceDetector.processFrame(); ... }\<close>
  in \<^verbatim>\<open>main\<close>; an exception ends the loop. \<^verbatim>\<open>displayFrame\<close> and the key poll
  leave the detector as it is.\<close>

fun run :: "'p env \<Rightarrow> nat \<Rightarrow> 'p FaceDetector \<Rightarrow> 'p FaceDetector outcome" where
  "run e 0 s = Returned s"
| "run e (Suc n) s =
     (case processFrame e s of
        Thrown err s' \<Rightarrow> Thrown err s'
      | Returned s' \<Rightarrow> run e n s')"

subsection \<open>Notions used to state the properties\<close>

text \<open>The regions held by the face image files on a disk, the most recently written
  first.\<close>

fun image_regions :: "'p disk \<Rightarrow> rect list" where
  "image_regions [] = []"
| "image_regions ((path, Directory) # d) = image_regions d"
| "image_regions ((path, ImageFile m r) # d) = r # image_regions d"

text \<open>What annotation never touches: everything but the frame, the flags, the disk
  and the clock.\<close>

definition same_settings :: "'p FaceDetector \<Rightarrow> 'p FaceDetector \<Rightarrow> bool" where
  "same_settings s s' =
     (faces s' = faces s \<and> focalLength s' = focalLength s \<and> realFaceWidth s' = realFaceWidth s
      \<and> videoWriter s' = videoWriter s \<and> frameSkipCount s' = frameSkipCount s
      \<and> frameCounter s' = frameCounter s \<and> video_reads s' = video_reads s \<and> cerr s' = cerr s)"

text \<open>The bounding box and the label of each of the slots \<open>js\<close>, in order.\<close>

definition face_drawings :: "dbl \<Rightarrow> dbl \<Rightarrow> rect list \<Rightarrow> nat list \<Rightarrow> draw_op list" where
  "face_drawings rw fl rs js =
     concat (map (\<lambda>j. [Rectangle (rs ! j), PutText (labelText rw fl j (rs ! j)) (tl_point (rs ! j))]) js)"

text \<open>The slots among \<open>js\<close> whose flag is not set, as rectangles.\<close>

definition unsaved :: "rect list \<Rightarrow> bool list \<Rightarrow> nat list \<Rightarrow> rect list" where
  "unsaved rs flags js = map (\<lambda>j. rs ! j) (filter (\<lambda>j. \<not> flags ! j) js)"

text \<open>A call of \<^verbatim>\<open>processFrame\<close> goes through detection, annotation and the video
  write when the camera delivers a frame and the incremented counter is a multiple of
  \<^verbatim>\<open>frameSkipCount + 1\<close>.\<close>

definition full_cycle :: "'p env \<Rightarrow> 'p FaceDetector \<Rightarrow> bool" where
  "full_cycle e s =
     (camera e (video_reads s) \<noteq> EmptyMat \<and> frameSkipCount s + 1 \<noteq> 0
      \<and> (frameCounter s + 1) smod (frameSkipCount s + 1) = 0)"

subsection \<open>A concrete session\<close>

text \<open>A camera that delivers three frames and then fails, a cascade that finds two
  faces in the first frame and three in any other, and a clock that stands still.
  The detector is built as in \<^verbatim>\<open>main\<close> (focal length 800, reference width 14),
  with speed-up factor 1, on a disk that holds the directory \<open>faces\<close> (the video writer
  has opened its file there). \<open>demo_after1\<close> and \<open>demo_after2\<close> are
  the states after the first and the second call of \<^verbatim>\<open>processFrame\<close>.\<close>

definition demo_env :: "nat env" where
  "demo_env =
     \<lparr>camera = (\<lambda>k. if k < 3 then Image k [] else EmptyMat),
      detectMultiScale = (\<lambda>m. if m = Image 0 [] then [Rect 10 20 100 100, Rect 200 20 200 200]
                                else [Rect 10 20 100 100, Rect 200 20 200 200, Rect 300 300 50 50]),
      system_clock = (\<lambda>k. 1700000000)\<rparr>"

definition demo_start :: "nat FaceDetector" where
  "demo_start =
     \<lparr>frame = EmptyMat, faces = [], facesSaved = [],
      focalLength = Finite 800, realFaceWidth = Finite 14, videoWriter = [],
      frameSkipCount = 0, frameCounter = 0,
      video_reads = 0, clock_reads = 0, disk = [(''faces'', Directory)], cerr = []\<rparr>"

definition demo_frame1 :: "nat mat" where
  "demo_frame1 =
     Image 0 [Rectangle (Rect 10 20 100 100), PutText ''Face 1 Dist: 112.00 cm'' (10, 20),
              Rectangle (Rect 200 20 200 200), PutText ''Face 2 Dist: 56.00 cm'' (200, 20),
              PutText ''2 faces found'' (10, 40)]"

definition demo_disk1 :: "nat disk" where
  "demo_disk1 =
     [(''faces/face_1700000000_1.jpg'',
         ImageFile (Image 0 [Rectangle (Rect 10 20 100 100), PutText ''Face 1 Dist: 112.00 cm'' (10, 20),
                             Rectangle (Rect 200 20 200 200)])
                   (Rect 200 20 200 200)),
      (''faces/face_1700000000.jpg'',
         ImageFile (Image 0 [Rectangle (Rect 10 20 100 100)]) (Rect 10 20 100 100)),
      (''faces'', Directory)]"

definition demo_after1 :: "nat FaceDetector" where
  "demo_after1 =
     \<lparr>frame = demo_frame1, faces = [Rect 10 20 100 100, Rect 200 20 200 200],
      facesSaved = [True, True],
      focalLength = Finite 800, realFaceWidth = Finite 14, videoWriter = [demo_frame1],
      frameSkipCount = 0, frameCounter = 0,
      video_reads = 1, clock_reads = 2, disk = demo_disk1, cerr = []\<rparr>"

definition demo_frame2 :: "nat mat" where
  "demo_frame2 =
     Image 1 [Rectangle (Rect 10 20 100 100), PutText ''Face 1 Dist: 112.00 cm'' (10, 20),
              Rectangle (Rect 200 20 200 200), PutText ''Face 2 Dist: 56.00 cm'' (200, 20),
              Rectangle (Rect 300 300 50 50), PutText ''Face 3 Dist: 224.00 cm'' (300, 300),
              PutText ''3 faces found'' (10, 40)]"

definition demo_disk2 :: "nat disk" where
  "demo_disk2 =
     (''faces/face_1700000000_2.jpg'',
        ImageFile (Image 1 [Rectangle (Rect 10 20 100 100), PutText ''Face 1 Dist: 112.00 cm'' (10, 20),
                            Rectangle (Rect 200 20 200 200), PutText ''Face 2 Dist: 56.00 cm'' (200, 20),
                            Rectangle (Rect 300 300 50 50)])
                  (Rect 300 300 50 50))
     # demo_disk1"

definition demo_after2 :: "nat FaceDetector" where
  "demo_after2 =
     \<lparr>frame = demo_frame2,
      faces = [Rect 10 20 100 100, Rect 200 20 200 200, Rect 300 300 50 50],
      facesSaved = [True, True, True],
      focalLength = Finite 800, realFaceWidth = Finite 14, videoWriter = [demo_frame1, demo_frame2],
      frameSkipCount = 0, frameCounter = 0,
      video_reads = 2, clock_reads = 3, disk = demo_disk2, cerr = []\<rparr>"

text \<open>The same camera in front of an empty room.\<close>

definition quiet_env :: "nat env" where
  "quiet_env =
     \<lparr>camera = (\<lambda>k. if k < 3 then Image k [] else EmptyMat),
      detectMultiScale = (\<lambda>m. []),
      system_clock = (\<lambda>k. 1700000000)\<rparr>"

text \<open>Further states of the session: the third frame with the saved flags of the
  first and the last slot cleared, the state after one and after two file names have
  been asked for, and the start with speed-up factor 2.\<close>

definition demo_mixed :: "nat FaceDetector" where
  "demo_mixed = demo_after2\<lparr>facesSaved := [False, True, False]\<rparr>"

definition demo_named :: "nat FaceDetector" where
  "demo_named = demo_start\<lparr>clock_reads := 1\<rparr>"

definition demo_named2 :: "nat FaceDetector" where
  "demo_named2 =
     demo_start\<lparr>clock_reads := 2,
       disk := [(''faces/face_1700000000.jpg'', ImageFile (Image 0 []) (Rect 10 20 100 100)),
                (''faces'', Directory)]\<rparr>"

definition demo_skip :: "nat FaceDetector" where
  "demo_skip = demo_start\<lparr>frameSkipCount := 1\<rparr>"

section \<open>Properties\<close>

subsection \<open>One face, and the loop over all faces\<close>

lemma same_settings_refl: "same_settings s s"
  by (simp add: same_settings_def)

lemma same_settings_trans: "same_settings s t \<Longrightarrow> same_settings t u \<Longrightarrow> same_settings s u"
  by (simp add: same_settings_def)

lemma uniqueLoop_fresh: "\<not> fs_exists d (snd (uniqueLoop d now count newFilename))"
  by (induction d now count newFilename rule: uniqueLoop.induct)
    (subst uniqueLoop.simps, simp)

lemma getUniqueFilename_state:
  "snd (getUniqueFilename e s)
     = s\<lparr>disk := create_directory (disk s) ''faces'', clock_reads := clock_reads s + 1\<rparr>"
  by (simp add: getUniqueFilename_def Let_def)

lemma getUniqueFilename_fresh:
  "\<not> fs_exists (disk (snd (getUniqueFilename e s))) (fst (getUniqueFilename e s))"
  by (simp add: getUniqueFilename_def Let_def uniqueLoop_fresh)

lemma image_regions_create_directory: "image_regions (create_directory d path) = image_regions d"
  by (simp add: create_directory_def)

lemma image_regions_imwrite: "image_regions (imwrite d path m r) = r # image_regions d"
  by (simp add: imwrite_def)

lemma annotateFace_saved:
  assumes "i < length (facesSaved s)" and "facesSaved s ! i"
  shows "annotateFace e i s =
           Returned (s\<lparr>frame := draw (PutText (labelText (realFaceWidth s) (focalLength s) i (faces s ! i))
                                        (tl_point (faces s ! i)))
                                  (draw (Rectangle (faces s ! i)) (frame s))\<rparr>)"
  using assms by (simp add: annotateFace_def Let_def)

lemma annotateFace_unsaved:
  assumes "i < length (facesSaved s)" and "\<not> facesSaved s ! i"
  shows "annotateFace e i s =
           Returned (s\<lparr>frame := draw (PutText (labelText (realFaceWidth s) (focalLength s) i (faces s ! i))
                                        (tl_point (faces s ! i)))
                                  (draw (Rectangle (faces s ! i)) (frame s)),
                       facesSaved := (facesSaved s)[i := True],
                       clock_reads := clock_reads s + 1,
                       disk := imwrite (create_directory (disk s) ''faces'')
                                 (fst (getUniqueFilename e (s\<lparr>frame := draw (Rectangle (faces s ! i)) (frame s)\<rparr>)))
                                 (draw (Rectangle (faces s ! i)) (frame s)) (faces s ! i)\<rparr>)"
  using assms
  by (simp add: annotateFace_def Let_def split_def getUniqueFilename_state)

lemma annotateFace_step:
  assumes "i < length (facesSaved s)"
  shows "\<exists>s'. annotateFace e i s = Returned s' \<and> same_settings s s'
           \<and> facesSaved s' = (facesSaved s)[i := True]
           \<and> frame s' = draw (PutText (labelText (realFaceWidth s) (focalLength s) i (faces s ! i))
                                 (tl_point (faces s ! i)))
                           (draw (Rectangle (faces s ! i)) (frame s))
           \<and> image_regions (disk s') = (if facesSaved s ! i then [] else [faces s ! i]) @ image_regions (disk s)
           \<and> (facesSaved s ! i \<longrightarrow> disk s' = disk s \<and> clock_reads s' = clock_reads s)"
proof (cases "facesSaved s ! i")
  case True
  with assms have "(facesSaved s)[i := True] = facesSaved s"
    by (simp add: list_update_same_conv)
  with True assms show ?thesis
    by (simp add: annotateFace_saved same_settings_def)
next
  case False
  with assms show ?thesis
    by (simp add: annotateFace_unsaved same_settings_def image_regions_imwrite
        image_regions_create_directory)
qed

lemma annotateFace_out_of_range:
  assumes "length (facesSaved s) \<le> i"
  shows "annotateFace e i s = Thrown index_out_of_range (s\<lparr>frame := draw (Rectangle (faces s ! i)) (frame s)\<rparr>)"
  using assms by (simp add: annotateFace_def Let_def)


lemma annotateLoop_returns:
  assumes "length (faces s) \<le> length (facesSaved s)"
  shows "\<exists>s'. annotateLoop e i s = Returned s' \<and> same_settings s s'
           \<and> facesSaved s' = take i (facesSaved s) @ replicate (length (faces s) - i) True
                              @ drop (max i (length (faces s))) (facesSaved s)
           \<and> frame s' = fold draw (face_drawings (realFaceWidth s) (focalLength s) (faces s)
                                     [i..<length (faces s)]) (frame s)
           \<and> image_regions (disk s')
               = rev (unsaved (faces s) (facesSaved s) [i..<length (faces s)]) @ image_regions (disk s)
           \<and> (unsaved (faces s) (facesSaved s) [i..<length (faces s)] = []
                \<longrightarrow> disk s' = disk s \<and> clock_reads s' = clock_reads s)"
  using assms
proof (induction e i s rule: annotateLoop.induct)
  case (1 e i s)
  let ?n = "length (faces s)"
  show ?case
  proof (cases "i < ?n")
    case False
    then have "[i..<?n] = []" by simp
    with False show ?thesis
      by (simp add: annotateLoop.simps [of e i s] same_settings_refl face_drawings_def unsaved_def max_def)
  next
    case True
    with 1(2) have il: "i < length (facesSaved s)" by simp
    from annotateFace_step [OF il, of e] obtain s1 where
      r: "annotateFace e i s = Returned s1" and ss: "same_settings s s1"
      and fl: "facesSaved s1 = (facesSaved s)[i := True]"
      and fr: "frame s1 = draw (PutText (labelText (realFaceWidth s) (focalLength s) i (faces s ! i))
                                 (tl_point (faces s ! i)))
                           (draw (Rectangle (faces s ! i)) (frame s))"
      and ir: "image_regions (disk s1) = (if facesSaved s ! i then [] else [faces s ! i]) @ image_regions (disk s)"
      and dk: "facesSaved s ! i \<longrightarrow> disk s1 = disk s \<and> clock_reads s1 = clock_reads s"
      by blast
    from ss have f1: "faces s1 = faces s" and rw: "realFaceWidth s1 = realFaceWidth s"
      and fo: "focalLength s1 = focalLength s"
      by (simp_all add: same_settings_def)
    have len1: "length (faces s1) \<le> length (facesSaved s1)" using 1(2) f1 fl by simp
    from 1(1) [OF True r len1] obtain s' where
      l: "annotateLoop e (i + 1) s1 = Returned s'" and ss': "same_settings s1 s'"
      and fl': "facesSaved s' = take (i + 1) (facesSaved s1) @ replicate (length (faces s1) - (i + 1)) True
                              @ drop (max (i + 1) (length (faces s1))) (facesSaved s1)"
      and fr': "frame s' = fold draw (face_drawings (realFaceWidth s1) (focalLength s1) (faces s1)
                                     [i + 1..<length (faces s1)]) (frame s1)"
      and ir': "image_regions (disk s')
               = rev (unsaved (faces s1) (facesSaved s1) [i + 1..<length (faces s1)]) @ image_regions (disk s1)"
      and dk': "unsaved (faces s1) (facesSaved s1) [i + 1..<length (faces s1)] = []
                \<longrightarrow> disk s' = disk s1 \<and> clock_reads s' = clock_reads s1"
      by blast
    have upt: "[i..<?n] = i # [i + 1..<?n]" using True by (simp add: upt_conv_Cons)
    have uns: "unsaved (faces s) (facesSaved s1) [i + 1..<?n] = unsaved (faces s) (facesSaved s) [i + 1..<?n]"
      unfolding unsaved_def fl
      by (rule arg_cong [where f = "map _"], rule filter_cong) auto
    have c1: "annotateLoop e i s = Returned s'"
      using True r l by (simp add: annotateLoop.simps [of e i s])
    have c2: "same_settings s s'" using ss ss' by (rule same_settings_trans)
    have tk: "take (i + 1) ((facesSaved s)[i := True]) = take i (facesSaved s) @ [True]"
      using il by (simp add: take_Suc_conv_app_nth)
    have rp: "[True] @ replicate (?n - (i + 1)) True = replicate (?n - i) True"
      using True by (metis Suc_diff_Suc Suc_eq_plus1 append_Cons append_Nil replicate_Suc)
    have c3: "facesSaved s' = take i (facesSaved s) @ replicate (?n - i) True
                @ drop (max i ?n) (facesSaved s)"
    proof -
      have "facesSaved s' = (take i (facesSaved s) @ [True]) @ replicate (?n - (i + 1)) True
              @ drop (max (i + 1) ?n) ((facesSaved s)[i := True])"
        using fl' fl f1 tk by simp
      also have "drop (max (i + 1) ?n) ((facesSaved s)[i := True]) = drop (max i ?n) (facesSaved s)"
        using True by (simp add: max_def)
      finally show ?thesis using rp by (metis append.assoc)
    qed
    have c4: "frame s' = fold draw (face_drawings (realFaceWidth s) (focalLength s) (faces s) [i..<?n]) (frame s)"
      using fr' fr by (simp add: f1 rw fo upt face_drawings_def)
    have c5: "image_regions (disk s') = rev (unsaved (faces s) (facesSaved s) [i..<?n]) @ image_regions (disk s)"
      using ir' ir uns by (simp add: f1 upt unsaved_def)
    have c6: "unsaved (faces s) (facesSaved s) [i..<?n] = [] \<longrightarrow> disk s' = disk s \<and> clock_reads s' = clock_reads s"
      using dk dk' uns by (auto simp: f1 upt unsaved_def split: if_splits)
    from c1 c2 c3 c4 c5 c6 show ?thesis by blast
  qed
qed

lemma annotateLoop_thrown:
  "thrown (annotateLoop e i s) = None \<or> thrown (annotateLoop e i s) = Some index_out_of_range"
proof (induction e i s rule: annotateLoop.induct)
  case (1 e i s)
  show ?case
  proof (cases "i < length (faces s)")
    case False
    then show ?thesis by (simp add: annotateLoop.simps [of e i s])
  next
    case True
    show ?thesis
    proof (cases "i < length (facesSaved s)")
      case False
      then have "annotateFace e i s = Thrown index_out_of_range (s\<lparr>frame := draw (Rectangle (faces s ! i)) (frame s)\<rparr>)"
        by (simp add: annotateFace_out_of_range)
      with True show ?thesis by (simp add: annotateLoop.simps [of e i s])
    next
      case il: True
      from annotateFace_step [OF il, of e] obtain s1 where r: "annotateFace e i s = Returned s1"
        by blast
      with True 1 [OF True r] show ?thesis by (simp add: annotateLoop.simps [of e i s])
    qed
  qed
qed

lemma annotateFrame_thrown:
  "thrown (annotateFrame e s) = None \<or> thrown (annotateFrame e s) = Some index_out_of_range"
  using annotateLoop_thrown [of e 0 s]
  by (cases "annotateLoop e 0 s") (simp_all add: annotateFrame_def)

lemma annotateFrame_returns:
  assumes "length (facesSaved s) = length (faces s)"
  shows "\<exists>s'. annotateFrame e s = Returned s' \<and> same_settings s s'
           \<and> facesSaved s' = replicate (length (faces s)) True
           \<and> frame s' = draw (PutText (faceMessage (length (faces s))) (10, 40))
                           (fold draw (face_drawings (realFaceWidth s) (focalLength s) (faces s)
                                         [0..<length (faces s)]) (frame s))
           \<and> image_regions (disk s')
               = rev (unsaved (faces s) (facesSaved s) [0..<length (faces s)]) @ image_regions (disk s)
           \<and> (unsaved (faces s) (facesSaved s) [0..<length (faces s)] = []
                \<longrightarrow> disk s' = disk s \<and> clock_reads s' = clock_reads s)"
proof -
  from assms have "length (faces s) \<le> length (facesSaved s)" by simp
  from annotateLoop_returns [OF this, of e 0] obtain s1 where
    l: "annotateLoop e 0 s = Returned s1" and ss: "same_settings s s1"
    and fl: "facesSaved s1 = take 0 (facesSaved s) @ replicate (length (faces s) - 0) True
                              @ drop (max 0 (length (faces s))) (facesSaved s)"
    and fr: "frame s1 = fold draw (face_drawings (realFaceWidth s) (focalLength s) (faces s)
                                     [0..<length (faces s)]) (frame s)"
    and ir: "image_regions (disk s1)
               = rev (unsaved (faces s) (facesSaved s) [0..<length (faces s)]) @ image_regions (disk s)"
    and dk: "unsaved (faces s) (facesSaved s) [0..<length (faces s)] = []
                \<longrightarrow> disk s1 = disk s \<and> clock_reads s1 = clock_reads s"
    by blast
  let ?s' = "s1\<lparr>frame := draw (PutText (faceMessage (length (faces s))) (10, 40)) (frame s1)\<rparr>"
  have "annotateFrame e s = Returned ?s'" using l by (simp add: annotateFrame_def)
  moreover have "same_settings s ?s'" using ss by (simp add: same_settings_def)
  moreover have "facesSaved ?s' = replicate (length (faces s)) True" using fl assms by simp
  moreover have "frame ?s' = draw (PutText (faceMessage (length (faces s))) (10, 40))
                           (fold draw (face_drawings (realFaceWidth s) (focalLength s) (faces s)
                                         [0..<length (faces s)]) (frame s))" using fr by simp
  moreover have "image_regions (disk ?s')
               = rev (unsaved (faces s) (facesSaved s) [0..<length (faces s)]) @ image_regions (disk s)"
    using ir by simp
  moreover have "unsaved (faces s) (facesSaved s) [0..<length (faces s)] = []
                \<longrightarrow> disk ?s' = disk s \<and> clock_reads ?s' = clock_reads s" using dk by simp
  ultimately show ?thesis by blast
qed

subsection \<open>One call of \<^verbatim>\<open>processFrame\<close>\<close>

lemma resizeFacesSaved_eq:
  "resizeFacesSaved s = s\<lparr>facesSaved := take (length (faces s)) (facesSaved s)
                              @ replicate (length (faces s) - length (facesSaved s)) False\<rparr>"
  by (simp add: resizeFacesSaved_def vector_resize_def)

lemma resizeFacesSaved_length: "length (facesSaved (resizeFacesSaved s)) = length (faces s)"
  by (simp add: resizeFacesSaved_eq)

lemma processFrame_capture_failed:
  assumes "camera e (video_reads s) = EmptyMat"
  shows "processFrame e s =
           Thrown CaptureFailed
             (s\<lparr>frame := EmptyMat, video_reads := video_reads s + 1,
                cerr := cerr s @ [''Error: Could not read a frame from the camera.'']\<rparr>)"
  using assms by (simp add: processFrame_def Let_def)

lemma processFrame_modulo_by_zero:
  assumes "camera e (video_reads s) \<noteq> EmptyMat" and "frameSkipCount s + 1 = 0"
  shows "processFrame e s =
           Thrown modulo_by_zero
             (s\<lparr>frame := camera e (video_reads s), video_reads := video_reads s + 1,
                frameCounter := frameCounter s + 1\<rparr>)"
  using assms by (simp add: processFrame_def Let_def)

lemma processFrame_skipped:
  assumes "camera e (video_reads s) \<noteq> EmptyMat" and "frameSkipCount s + 1 \<noteq> 0"
    and "(frameCounter s + 1) smod (frameSkipCount s + 1) \<noteq> 0"
  shows "processFrame e s =
           Returned (s\<lparr>frame := camera e (video_reads s), video_reads := video_reads s + 1,
                       frameCounter := frameCounter s + 1\<rparr>)"
  using assms by (simp add: processFrame_def Let_def)

lemma processFrame_full:
  assumes "full_cycle e s"
  shows "processFrame e s =
           (case annotateFrame e (resizeFacesSaved
                   (s\<lparr>frame := camera e (video_reads s), video_reads := video_reads s + 1,
                      frameCounter := 0, faces := detectMultiScale e (camera e (video_reads s))\<rparr>)) of
              Thrown err s6 \<Rightarrow> Thrown err s6
            | Returned s6 \<Rightarrow> Returned (s6\<lparr>videoWriter := videoWriter s6 @ [frame s6]\<rparr>))"
  using assms by (simp add: processFrame_def Let_def full_cycle_def)


lemma processFrame_full_cycle:
  assumes fc: "full_cycle e s"
  shows "\<exists>s'. processFrame e s = Returned s'
           \<and> faces s' = detectMultiScale e (camera e (video_reads s))
           \<and> facesSaved s' = replicate (length (faces s')) True
           \<and> frameCounter s' = 0
           \<and> video_reads s' = video_reads s + 1
           \<and> frame s' = draw (PutText (faceMessage (length (faces s'))) (10, 40))
                           (fold draw (face_drawings (realFaceWidth s) (focalLength s) (faces s')
                                         [0..<length (faces s')]) (camera e (video_reads s)))
           \<and> videoWriter s' = videoWriter s @ [frame s']
           \<and> image_regions (disk s')
               = rev (unsaved (faces s') (vector_resize (facesSaved s) (length (faces s')) False)
                        [0..<length (faces s')]) @ image_regions (disk s)
           \<and> (unsaved (faces s') (vector_resize (facesSaved s) (length (faces s')) False)
                        [0..<length (faces s')] = []
                \<longrightarrow> disk s' = disk s \<and> clock_reads s' = clock_reads s)
           \<and> focalLength s' = focalLength s \<and> realFaceWidth s' = realFaceWidth s
           \<and> frameSkipCount s' = frameSkipCount s \<and> cerr s' = cerr s"
proof -
  let ?cap = "camera e (video_reads s)"
  let ?dets = "detectMultiScale e ?cap"
  let ?s4 = "s\<lparr>frame := ?cap, video_reads := video_reads s + 1,
                frameCounter := 0, faces := ?dets\<rparr>"
  let ?s5 = "resizeFacesSaved ?s4"
  have len: "length (facesSaved ?s5) = length (faces ?s5)"
    by (simp add: resizeFacesSaved_eq)
  from annotateFrame_returns [OF len, of e] obtain s6 where
    a: "annotateFrame e ?s5 = Returned s6" and ss: "same_settings ?s5 s6"
    and fl: "facesSaved s6 = replicate (length (faces ?s5)) True"
    and fr: "frame s6 = draw (PutText (faceMessage (length (faces ?s5))) (10, 40))
                           (fold draw (face_drawings (realFaceWidth ?s5) (focalLength ?s5) (faces ?s5)
                                         [0..<length (faces ?s5)]) (frame ?s5))"
    and ir: "image_regions (disk s6)
               = rev (unsaved (faces ?s5) (facesSaved ?s5) [0..<length (faces ?s5)]) @ image_regions (disk ?s5)"
    and dk: "unsaved (faces ?s5) (facesSaved ?s5) [0..<length (faces ?s5)] = []
                \<longrightarrow> disk s6 = disk ?s5 \<and> clock_reads s6 = clock_reads ?s5"
    by blast
  let ?s' = "s6\<lparr>videoWriter := videoWriter s6 @ [frame s6]\<rparr>"
  have p: "processFrame e s = Returned ?s'"
    using a by (simp add: processFrame_full [OF fc])
  have f: "faces ?s' = ?dets" using ss by (simp add: same_settings_def resizeFacesSaved_eq)
  have c2: "facesSaved ?s' = replicate (length (faces ?s')) True" using fl f by (simp add: resizeFacesSaved_eq vector_resize_def)
  have c3: "frameCounter ?s' = 0" using ss by (simp add: same_settings_def resizeFacesSaved_eq)
  have c4: "video_reads ?s' = video_reads s + 1" using ss by (simp add: same_settings_def resizeFacesSaved_eq)
  have c5: "frame ?s' = draw (PutText (faceMessage (length (faces ?s'))) (10, 40))
                           (fold draw (face_drawings (realFaceWidth s) (focalLength s) (faces ?s')
                                         [0..<length (faces ?s')]) ?cap)"
    using fr f by (simp add: resizeFacesSaved_eq vector_resize_def)
  have c6: "videoWriter ?s' = videoWriter s @ [frame ?s']" using ss by (simp add: same_settings_def resizeFacesSaved_eq)
  have c7: "image_regions (disk ?s')
               = rev (unsaved (faces ?s') (vector_resize (facesSaved s) (length (faces ?s')) False)
                        [0..<length (faces ?s')]) @ image_regions (disk s)"
    using ir f by (simp add: resizeFacesSaved_eq vector_resize_def)
  have c8: "unsaved (faces ?s') (vector_resize (facesSaved s) (length (faces ?s')) False)
                        [0..<length (faces ?s')] = []
                \<longrightarrow> disk ?s' = disk s \<and> clock_reads ?s' = clock_reads s"
    using dk f by (simp add: resizeFacesSaved_eq vector_resize_def)
  have c9: "focalLength ?s' = focalLength s \<and> realFaceWidth ?s' = realFaceWidth s
           \<and> frameSkipCount ?s' = frameSkipCount s \<and> cerr ?s' = cerr s"
    using ss by (simp add: same_settings_def resizeFacesSaved_eq)
  from p f c2 c3 c4 c5 c6 c7 c8 c9 show ?thesis by blast
qed

lemma processFrame_thrown:
  "thrown (processFrame e s) =
     (if camera e (video_reads s) = EmptyMat then Some CaptureFailed
      else if frameSkipCount s + 1 = 0 then Some modulo_by_zero
      else None)"
proof (cases "camera e (video_reads s) = EmptyMat")
  case True
  then show ?thesis by (simp add: processFrame_capture_failed)
next
  case cap: False
  show ?thesis
  proof (cases "frameSkipCount s + 1 = 0")
    case True
    with cap show ?thesis by (simp add: processFrame_modulo_by_zero)
  next
    case d: False
    show ?thesis
    proof (cases "(frameCounter s + 1) smod (frameSkipCount s + 1) = 0")
      case True
      with cap d have "full_cycle e s" by (simp add: full_cycle_def)
      from processFrame_full_cycle [OF this] obtain s' where "processFrame e s = Returned s'"
        by blast
      with cap d show ?thesis by simp
    next
      case False
      with cap d show ?thesis by (simp add: processFrame_skipped)
    qed
  qed
qed

lemma processFrame_lengths:
  assumes "length (facesSaved s) = length (faces s)"
  shows "length (facesSaved (state_of (processFrame e s))) = length (faces (state_of (processFrame e s)))"
proof (cases "camera e (video_reads s) = EmptyMat")
  case True
  with assms show ?thesis by (simp add: processFrame_capture_failed)
next
  case cap: False
  show ?thesis
  proof (cases "frameSkipCount s + 1 = 0")
    case True
    with cap assms show ?thesis by (simp add: processFrame_modulo_by_zero)
  next
    case d: False
    show ?thesis
    proof (cases "(frameCounter s + 1) smod (frameSkipCount s + 1) = 0")
      case True
      with cap d have "full_cycle e s" by (simp add: full_cycle_def)
      from processFrame_full_cycle [OF this] obtain s' where "processFrame e s = Returned s'"
        and "facesSaved s' = replicate (length (faces s')) True"
        by blast
      then show ?thesis by simp
    next
      case False
      with cap d assms show ?thesis by (simp add: processFrame_skipped)
    qed
  qed
qed

lemma run_lengths:
  assumes "length (facesSaved s) = length (faces s)"
  shows "length (facesSaved (state_of (run e n s))) = length (faces (state_of (run e n s)))
         \<and> thrown (run e n s) \<noteq> Some index_out_of_range"
  using assms
proof (induction n arbitrary: s)
  case 0
  then show ?case by simp
next
  case (Suc n)
  show ?case
  proof (cases "processFrame e s")
    case (Returned s1)
    with processFrame_lengths [OF Suc.prems, of e] have "length (facesSaved s1) = length (faces s1)"
      by simp
    from Suc.IH [OF this] Returned show ?thesis by simp
  next
    case (Thrown err s1)
    with processFrame_lengths [OF Suc.prems, of e] have l: "length (facesSaved s1) = length (faces s1)"
      by simp
    from Thrown processFrame_thrown [of e s] have "err \<noteq> index_out_of_range"
      by (auto simp: CaptureFailed_def split: if_splits)
    with l Thrown show ?thesis by simp
  qed
qed

lemma processFrame_not_full:
  assumes "\<not> full_cycle e s"
  shows "facesSaved (state_of (processFrame e s)) = facesSaved s
         \<and> faces (state_of (processFrame e s)) = faces s
         \<and> disk (state_of (processFrame e s)) = disk s
         \<and> videoWriter (state_of (processFrame e s)) = videoWriter s"
proof (cases "camera e (video_reads s) = EmptyMat")
  case True
  then show ?thesis by (simp add: processFrame_capture_failed)
next
  case cap: False
  show ?thesis
  proof (cases "frameSkipCount s + 1 = 0")
    case True
    with cap show ?thesis by (simp add: processFrame_modulo_by_zero)
  next
    case False
    with cap assms have "(frameCounter s + 1) smod (frameSkipCount s + 1) \<noteq> 0"
      by (simp add: full_cycle_def)
    with cap False show ?thesis by (simp add: processFrame_skipped)
  qed
qed

subsection \<open>Drawings, flags and written files\<close>

lemma fold_draw_Image: "fold draw ops (Image p ds) = Image p (ds @ ops)"
  by (induction ops arbitrary: ds) simp_all

lemma drawn_fold_draw: "m \<noteq> EmptyMat \<Longrightarrow> drawn (fold draw ops m) = drawn m @ ops"
  by (cases m) (simp_all add: fold_draw_Image)

lemma drawn_draw: "m \<noteq> EmptyMat \<Longrightarrow> drawn (draw d m) = drawn m @ [d]"
  by (cases m) simp_all

lemma fold_draw_nonempty: "m \<noteq> EmptyMat \<Longrightarrow> fold draw ops m \<noteq> EmptyMat"
  by (cases m) (simp_all add: fold_draw_Image)

lemma unsaved_all_saved:
  assumes "\<forall>j\<in>set js. flags ! j"
  shows "unsaved rs flags js = []"
  using assms by (simp add: unsaved_def)

lemma vector_resize_same: "vector_resize xs (length xs) v = xs"
  by (simp add: vector_resize_def)

lemma all_true_nth: "(\<forall>b\<in>set flags. b) \<Longrightarrow> j < length flags \<Longrightarrow> flags ! j"
  using nth_mem by blast

lemma length_unsaved: "length (unsaved rs flags js) \<le> length js"
  by (simp add: unsaved_def)

lemma face_drawings_mem:
  assumes "j \<in> set js"
  shows "Rectangle (rs ! j) \<in> set (face_drawings rw fl rs js)
         \<and> PutText (labelText rw fl j (rs ! j)) (tl_point (rs ! j)) \<in> set (face_drawings rw fl rs js)"
  using assms by (auto simp: face_drawings_def)

lemma resizeFacesSaved_nth:
  assumes "i < length (faces s)"
  shows "facesSaved (resizeFacesSaved s) ! i
           = (if i < length (facesSaved s) then facesSaved s ! i else False)"
  using assms by (simp add: resizeFacesSaved_eq nth_append)

subsection \<open>The file name loop\<close>

lemma uniqueLoop_shape:
  "(\<not> fs_exists d newFilename \<and> uniqueLoop d now count newFilename = (count, newFilename))
   \<or> (fs_exists d newFilename
       \<and> (\<exists>k\<ge>count. uniqueLoop d now count newFilename = (k + 1, suffixed now k)
             \<and> (\<forall>j. count \<le> j \<and> j < k \<longrightarrow> fs_exists d (suffixed now j))))"
proof (induction d now count newFilename rule: uniqueLoop.induct)
  case (1 d now count newFilename)
  show ?case
  proof (cases "fs_exists d newFilename")
    case False
    then show ?thesis by (subst uniqueLoop.simps) simp
  next
    case True
    from 1 [OF True] consider
      (stop) "\<not> fs_exists d (suffixed now count)"
        "uniqueLoop d now (count + 1) (suffixed now count) = (count + 1, suffixed now count)"
      | (go) k where "fs_exists d (suffixed now count)" "count + 1 \<le> k"
        "uniqueLoop d now (count + 1) (suffixed now count) = (k + 1, suffixed now k)"
        "\<forall>j. count + 1 \<le> j \<and> j < k \<longrightarrow> fs_exists d (suffixed now j)"
      by blast
    then show ?thesis
    proof cases
      case stop
      have "uniqueLoop d now count newFilename = (count + 1, suffixed now count)"
        using True stop(2) by (subst uniqueLoop.simps) simp
      with True show ?thesis by (intro disjI2 conjI exI [of _ count]) auto
    next
      case go
      have u: "uniqueLoop d now count newFilename = (k + 1, suffixed now k)"
        using True go(3) by (subst uniqueLoop.simps) simp
      have "\<forall>j. count \<le> j \<and> j < k \<longrightarrow> fs_exists d (suffixed now j)"
      proof (intro allI impI)
        fix j assume j: "count \<le> j \<and> j < k"
        show "fs_exists d (suffixed now j)"
        proof (cases "j = count")
          case True
          with go(1) show ?thesis by simp
        next
          case False
          with j have "count + 1 \<le> j \<and> j < k" by simp
          with go(4) show ?thesis by blast
        qed
      qed
      with True u go(2) show ?thesis by (intro disjI2 conjI exI [of _ k]) auto
    qed
  qed
qed

lemma fs_exists_create_directory:
  "fs_exists d path \<Longrightarrow> fs_exists (create_directory d dir) path"
  by (auto simp: create_directory_def fs_exists_def)

lemma fs_exists_imwrite: "fs_exists (imwrite d path m r) path"
  by (simp add: imwrite_def fs_exists_def)

lemma fs_exists_imwrite_other:
  "fs_exists d path \<Longrightarrow> fs_exists (imwrite d other m r) path"
  by (simp add: imwrite_def fs_exists_def)

subsection \<open>The frame counter\<close>

lemma smod_nonneg: "0 \<le> a \<Longrightarrow> 0 < b \<Longrightarrow> a smod b = a mod (b::int)"
  by (cases "a = 0") (simp_all add: signed_modulo_int_def)

lemma counter_step:
  assumes f: "1 \<le> f" and sk: "frameSkipCount s = f - 1"
    and c: "0 \<le> frameCounter s" "frameCounter s < f"
    and cap: "camera e (video_reads s) \<noteq> EmptyMat"
  shows "if frameCounter s + 1 = f then full_cycle e s
         else processFrame e s =
                Returned (s\<lparr>frame := camera e (video_reads s), video_reads := video_reads s + 1,
                            frameCounter := frameCounter s + 1\<rparr>)"
proof (cases "frameCounter s + 1 = f")
  case True
  with f sk c have "(frameCounter s + 1) smod (frameSkipCount s + 1) = 0"
    by (simp add: smod_nonneg)
  with True f sk cap show ?thesis by (simp add: full_cycle_def)
next
  case False
  with c have lt: "frameCounter s + 1 < f" by simp
  with f sk c have "(frameCounter s + 1) smod (frameSkipCount s + 1) = frameCounter s + 1"
    by (simp add: smod_nonneg)
  with c have "(frameCounter s + 1) smod (frameSkipCount s + 1) \<noteq> 0" by simp
  moreover from f sk have "frameSkipCount s + 1 \<noteq> 0" by simp
  ultimately show ?thesis using False cap by (simp add: processFrame_skipped)
qed

lemma run_counter:
  assumes "1 \<le> f" and "frameSkipCount s = f - 1"
    and "0 \<le> frameCounter s" and "frameCounter s < f"
    and "\<forall>k<n. camera e (video_reads s + k) \<noteq> EmptyMat"
  shows "\<exists>s'. run e n s = Returned s' \<and> frameSkipCount s' = f - 1
           \<and> frameCounter s' = (frameCounter s + int n) mod f
           \<and> int (length (videoWriter s')) = int (length (videoWriter s)) + (frameCounter s + int n) div f
           \<and> video_reads s' = video_reads s + n"
  using assms
proof (induction n arbitrary: s)
  case 0
  then show ?case by simp
next
  case (Suc n)
  from Suc.prems(5) have cap: "camera e (video_reads s) \<noteq> EmptyMat" by force
  note step = counter_step [OF Suc.prems(1-4) cap]
  have "\<exists>s1. processFrame e s = Returned s1 \<and> frameSkipCount s1 = f - 1
          \<and> video_reads s1 = video_reads s + 1
          \<and> (if frameCounter s + 1 = f
              then frameCounter s1 = 0 \<and> length (videoWriter s1) = length (videoWriter s) + 1
              else frameCounter s1 = frameCounter s + 1 \<and> videoWriter s1 = videoWriter s)"
  proof (cases "frameCounter s + 1 = f")
    case True
    with step have "full_cycle e s" by simp
    from processFrame_full_cycle [OF this] obtain s1 where
      "processFrame e s = Returned s1" "frameCounter s1 = 0" "video_reads s1 = video_reads s + 1"
      "videoWriter s1 = videoWriter s @ [frame s1]" "frameSkipCount s1 = frameSkipCount s"
      by blast
    with True Suc.prems(2) show ?thesis by simp
  next
    case False
    with step Suc.prems(2) show ?thesis by simp
  qed
  then obtain s1 where p: "processFrame e s = Returned s1" and sk1: "frameSkipCount s1 = f - 1"
    and vr1: "video_reads s1 = video_reads s + 1"
    and c1: "if frameCounter s + 1 = f
              then frameCounter s1 = 0 \<and> length (videoWriter s1) = length (videoWriter s) + 1
              else frameCounter s1 = frameCounter s + 1 \<and> videoWriter s1 = videoWriter s"
    by blast
  from c1 Suc.prems(1,3,4) have r1: "0 \<le> frameCounter s1" "frameCounter s1 < f"
    by (auto split: if_splits)
  have cam1: "\<forall>k<n. camera e (video_reads s1 + k) \<noteq> EmptyMat"
  proof (intro allI impI)
    fix k assume "k < n"
    then have "Suc k < Suc n" by simp
    with Suc.prems(5) have "camera e (video_reads s + Suc k) \<noteq> EmptyMat" by blast
    then show "camera e (video_reads s1 + k) \<noteq> EmptyMat" by (simp add: vr1)
  qed
  from Suc.IH [OF Suc.prems(1) sk1 r1 cam1] obtain s' where
    r: "run e n s1 = Returned s'" and sk': "frameSkipCount s' = f - 1"
    and c': "frameCounter s' = (frameCounter s1 + int n) mod f"
    and v': "int (length (videoWriter s')) = int (length (videoWriter s1)) + (frameCounter s1 + int n) div f"
    and vr': "video_reads s' = video_reads s1 + n"
    by blast
  have run: "run e (Suc n) s = Returned s'" using p r by simp
  have f0: "f \<noteq> 0" using Suc.prems(1) by simp
  have "frameCounter s' = (frameCounter s + int (Suc n)) mod f
        \<and> int (length (videoWriter s')) = int (length (videoWriter s)) + (frameCounter s + int (Suc n)) div f"
  proof (cases "frameCounter s + 1 = f")
    case True
    with c1 have z: "frameCounter s1 = 0" and l: "length (videoWriter s1) = length (videoWriter s) + 1"
      by simp_all
    have e1: "frameCounter s + int (Suc n) = f + int n" using True by simp
    have cm: "(frameCounter s + int (Suc n)) mod f = int n mod f" unfolding e1 by simp
    have cd: "(frameCounter s + int (Suc n)) div f = int n div f + 1" unfolding e1 using f0 by simp
    from c' z have "frameCounter s' = int n mod f" by simp
    moreover from v' z l
    have "int (length (videoWriter s')) = int (length (videoWriter s)) + (int n div f + 1)" by simp
    ultimately show ?thesis unfolding cm cd by simp
  next
    case False
    with c1 have z: "frameCounter s1 = frameCounter s + 1" and l: "videoWriter s1 = videoWriter s"
      by simp_all
    have e1: "frameCounter s + int (Suc n) = frameCounter s + 1 + int n" by simp
    from c' v' show ?thesis unfolding e1 z l by simp
  qed
  moreover have "video_reads s' = video_reads s + Suc n" using vr' vr1 by simp
  ultimately show ?case using run sk' by blast
qed

lemma dvd_succ_iff:
  assumes "0 < (f::int)"
  shows "f dvd k + 1 \<longleftrightarrow> k mod f + 1 = f"
proof -
  have r: "0 \<le> k mod f" "k mod f < f" using assms by simp_all
  have e: "(k + 1) mod f = (k mod f + 1) mod f" by (simp add: mod_add_left_eq)
  show ?thesis
  proof (cases "k mod f + 1 = f")
    case True
    with e have "(k + 1) mod f = 0" by simp
    with True show ?thesis by (simp add: dvd_eq_mod_eq_0)
  next
    case False
    with r have "k mod f + 1 < f" by simp
    with r e have "(k + 1) mod f = k mod f + 1" by simp
    with r have "(k + 1) mod f \<noteq> 0" by simp
    with False show ?thesis by (simp add: dvd_eq_mod_eq_0)
  qed
qed

subsection \<open>Rounding to binary64\<close>

lemma binade_upto_props:
  "- 1022 \<le> binade_upto a k \<and> binade_upto a k \<le> int k - 1022
   \<and> (- 1022 < binade_upto a k \<longrightarrow> 2 powi (binade_upto a k) \<le> a)
   \<and> (binade_upto a k < int k - 1022 \<longrightarrow> a < 2 powi (binade_upto a k + 1))"
proof (induction k)
  case 0
  show ?case by simp
next
  case (Suc k)
  show ?case
  proof (cases "2 powi (int (Suc k) - 1022) \<le> a")
    case True
    then show ?thesis by simp
  next
    case False
    then have r: "binade_upto a (Suc k) = binade_upto a k" by simp
    have "a < 2 powi (binade_upto a k + 1)"
    proof (cases "binade_upto a k < int k - 1022")
      case True
      with Suc show ?thesis by blast
    next
      case False
      with Suc have "binade_upto a k = int k - 1022" by linarith
      then have "binade_upto a k + 1 = int (Suc k) - 1022" by simp
      moreover from \<open>\<not> 2 powi (int (Suc k) - 1022) \<le> a\<close>
      have "a < 2 powi (int (Suc k) - 1022)" by (simp only: not_le)
      ultimately show ?thesis by (simp only:)
    qed
    with Suc r show ?thesis by auto
  qed
qed

lemma binade_range: "- 1022 \<le> binade a" "binade a \<le> 1023"
  using binade_upto_props [of a 2045] by (simp_all add: binade_def)

lemma binade_lower:
  assumes "2 powi (- 1022) \<le> a"
  shows "2 powi (binade a) \<le> a"
proof (cases "- 1022 < binade a")
  case True
  with binade_upto_props [of a 2045] show ?thesis by (simp add: binade_def)
next
  case False
  with binade_range(1) [of a] have "binade a = - 1022" by simp
  with assms show ?thesis by simp
qed

lemma binade_upper:
  assumes "a < 2 powi 1024"
  shows "a < 2 powi (binade a + 1)"
proof (cases "binade a < 1023")
  case True
  with binade_upto_props [of a 2045] show ?thesis by (simp add: binade_def)
next
  case False
  with binade_range(2) [of a] have "binade a = 1023" by simp
  with assms show ?thesis by simp
qed

lemma binade_eqI:
  assumes "- 1022 \<le> e" and "e \<le> 1023" and "2 powi e \<le> a" and "a < 2 powi (e + 1)"
  shows "binade a = e"
proof -
  have "(2::real) powi (- 1022) \<le> 2 powi e" using assms(1) by (intro power_int_increasing) simp_all
  with assms(3) have lo: "2 powi (- 1022) \<le> a" by simp
  have "(2::real) powi (e + 1) \<le> 2 powi 1024" using assms(2) by (intro power_int_increasing) simp_all
  with assms(4) have hi: "a < 2 powi 1024" by simp
  from binade_lower [OF lo] assms(4) have "(2::real) powi (binade a) < 2 powi (e + 1)" by simp
  then have "binade a < e + 1"
    by (metis linorder_not_less power_int_increasing one_le_numeral)
  moreover from binade_upper [OF hi] assms(3) have "(2::real) powi e < 2 powi (binade a + 1)" by simp
  then have "e < binade a + 1"
    by (metis linorder_not_less power_int_increasing one_le_numeral)
  ultimately show ?thesis by simp
qed

lemma binade_subnormal:
  assumes "a < 2 powi (- 1021)"
  shows "binade a = - 1022"
proof (rule ccontr)
  assume "binade a \<noteq> - 1022"
  with binade_range(1) [of a] have g: "- 1021 \<le> binade a" by simp
  then have "- 1022 < binade a" by simp
  with binade_upto_props [of a 2045] have "2 powi (binade a) \<le> a" by (simp add: binade_def)
  moreover have "(2::real) powi (- 1021) \<le> 2 powi (binade a)"
    using g by (intro power_int_increasing) simp_all
  ultimately show False using assms by simp
qed


lemma round_half_even_cases:
  assumes "0 \<le> t"
  shows "real (round_half_even t) = of_int \<lfloor>t\<rfloor> \<and> t - of_int \<lfloor>t\<rfloor> \<le> 1 / 2
         \<or> real (round_half_even t) = of_int \<lfloor>t\<rfloor> + 1 \<and> 1 / 2 \<le> t - of_int \<lfloor>t\<rfloor>"
proof -
  from assms have "0 \<le> \<lfloor>t\<rfloor>" by simp
  then have n: "real (nat \<lfloor>t\<rfloor>) = of_int \<lfloor>t\<rfloor>" by simp
  show ?thesis by (auto simp: round_half_even_def Let_def n)
qed

lemma round_half_even_error:
  assumes "0 \<le> t"
  shows "\<bar>real (round_half_even t) - t\<bar> \<le> 1 / 2"
proof -
  have "of_int \<lfloor>t\<rfloor> \<le> t" "t < of_int \<lfloor>t\<rfloor> + 1" by linarith+
  with round_half_even_cases [OF assms] show ?thesis by linarith
qed

lemma round_half_even_of_nat: "round_half_even (real n) = n"
  by (simp add: round_half_even_def Let_def)

lemma nearest_error:
  assumes "0 \<le> a"
  shows "\<bar>nearest a - a\<bar> \<le> 2 powi (binade a - 53)"
proof -
  let ?q = "binade a - 52"
  let ?t = "a / 2 powi ?q"
  have p: "(0::real) < 2 powi ?q" by simp
  then have t0: "0 \<le> ?t" using assms by simp
  have a: "a = ?t * 2 powi ?q" by simp
  have "nearest a - a = (real (round_half_even ?t) - ?t) * 2 powi ?q"
    by (simp add: nearest_def Let_def algebra_simps)
  then have "\<bar>nearest a - a\<bar> = \<bar>real (round_half_even ?t) - ?t\<bar> * 2 powi ?q"
    by (simp add: abs_mult)
  also have "\<dots> \<le> (1 / 2) * 2 powi ?q"
    using round_half_even_error [OF t0] p by (intro mult_right_mono) simp_all
  also have "(1 / 2) * (2::real) powi ?q = 2 powi (?q - 1)"
    by (simp add: power_int_diff)
  also have "?q - 1 = binade a - 53" by simp
  finally show ?thesis .
qed

lemma nearest_relative_error:
  assumes "2 powi (- 1022) \<le> a"
  shows "\<bar>nearest a - a\<bar> \<le> a / 2 ^ 53"
proof -
  have "(0::real) < 2 powi (- 1022)" by simp
  with assms have a0: "0 \<le> a" by linarith
  have "(2::real) powi (binade a - 53) = 2 powi (binade a) / 2 ^ 53"
    by (simp add: power_int_diff)
  also have "\<dots> \<le> a / 2 ^ 53"
    using binade_lower [OF assms] by (intro divide_right_mono) simp_all
  finally show ?thesis using nearest_error [OF a0] by linarith
qed


lemma round64_normal:
  assumes lo: "2 powi (- 1022) \<le> \<bar>x\<bar>" and hi: "\<bar>x\<bar> * (1 + 1 / 2 ^ 53) < 2 ^ 1024"
  shows "\<exists>r. round64 x = Finite r \<and> \<bar>r - x\<bar> \<le> \<bar>x\<bar> / 2 ^ 53 \<and> (0 < x \<longrightarrow> 0 < r) \<and> (x < 0 \<longrightarrow> r < 0)"
proof -
  let ?a = "\<bar>x\<bar>"
  let ?n = "nearest ?a"
  have p: "(0::real) < 2 powi (- 1022)" by simp
  with lo have a0: "0 < ?a" by linarith
  note e = nearest_relative_error [OF lo]
  have u: "(0::real) < 1 / 2 ^ 53" "(1::real) / 2 ^ 53 < 1" by simp_all
  have "?n \<le> ?a + ?a / 2 ^ 53" using e by linarith
  also have "\<dots> = ?a * (1 + 1 / 2 ^ 53)" by (simp add: algebra_simps)
  finally have n_hi: "?n < 2 ^ 1024" using hi by linarith
  have "?a * (1 - 1 / 2 ^ 53) = ?a - ?a / 2 ^ 53" by (simp add: algebra_simps)
  moreover have "0 < ?a * (1 - 1 / 2 ^ 53)" using a0 u by (intro mult_pos_pos) simp_all
  ultimately have n_lo: "0 < ?n" using e by linarith
  show ?thesis
  proof (cases "x < 0")
    case True
    then have "round64 x = Finite (- ?n)" using n_hi n_lo by (simp add: round64_def Let_def)
    moreover have "\<bar>- ?n - x\<bar> = \<bar>?n - ?a\<bar>" using True by simp
    ultimately show ?thesis using e n_lo True by simp
  next
    case False
    then have "round64 x = Finite ?n" using n_hi n_lo by (simp add: round64_def Let_def)
    moreover have "\<bar>?n - x\<bar> = \<bar>?n - ?a\<bar>" using False by simp
    ultimately show ?thesis using e n_lo False by simp
  qed
qed

lemma nearest_exact:
  assumes m: "0 \<le> m" "m < 2 ^ 53" and k: "- 1074 \<le> k"
  shows "nearest (of_int m * 2 powi k) = of_int m * 2 powi k"
proof -
  let ?a = "real_of_int m * 2 powi k"
  let ?q = "binade ?a - 52"
  have qk: "?q \<le> k"
  proof (cases "- 1022 < binade ?a")
    case False
    with binade_range(1) [of ?a] have "binade ?a = - 1022" by simp
    with k show ?thesis by simp
  next
    case True
    with binade_upto_props [of ?a 2045] have "2 powi (binade ?a) \<le> ?a" by (simp add: binade_def)
    also have "?a < 2 ^ 53 * 2 powi k" using m by (intro mult_strict_right_mono) simp_all
    also have "(2::real) ^ 53 * 2 powi k = 2 powi (53 + k)" by (simp add: power_int_add)
    finally have "(2::real) powi (binade ?a) < 2 powi (53 + k)" .
    then have "binade ?a < 53 + k"
      by (metis linorder_not_less power_int_increasing one_le_numeral)
    then show ?thesis by simp
  qed
  then have d: "0 \<le> k - ?q" by simp
  have "?a / 2 powi ?q = of_int m * 2 powi (k - ?q)" by (simp add: power_int_diff)
  also have "(2::real) powi (k - ?q) = 2 ^ nat (k - ?q)" using d by (simp add: power_int_def)
  also have "of_int m * (2::real) ^ nat (k - ?q) = real (nat m * 2 ^ nat (k - ?q))"
    using m(1) by simp
  finally have "round_half_even (?a / 2 powi ?q) = nat m * 2 ^ nat (k - ?q)"
    by (simp only: round_half_even_of_nat)
  then have "nearest ?a = real (nat m * 2 ^ nat (k - ?q)) * 2 powi ?q"
    by (simp add: nearest_def Let_def)
  also have "\<dots> = of_int m * (2 powi (k - ?q) * 2 powi ?q)"
    using m(1) d by (simp add: power_int_def)
  also have "(2::real) powi (k - ?q) * 2 powi ?q = 2 powi k"
    by (simp flip: power_int_add)
  finally show ?thesis .
qed

lemma round64_exact:
  assumes m: "\<bar>m\<bar> < 2 ^ 53" and k: "- 1074 \<le> k" "k \<le> 971"
  shows "round64 (of_int m * 2 powi k) = Finite (of_int m * 2 powi k)"
proof -
  let ?x = "real_of_int m * 2 powi k"
  have ax: "\<bar>?x\<bar> = of_int \<bar>m\<bar> * 2 powi k" by (simp add: abs_mult)
  have n: "nearest \<bar>?x\<bar> = \<bar>?x\<bar>"
    unfolding ax using m k(1) by (intro nearest_exact) simp_all
  have "\<bar>?x\<bar> < 2 ^ 53 * 2 powi k" unfolding ax using m by (intro mult_strict_right_mono) simp_all
  also have "(2::real) ^ 53 * 2 powi k = 2 powi (53 + k)" by (simp add: power_int_add)
  also have "\<dots> \<le> 2 powi 1024" using k(2) by (intro power_int_increasing) simp_all
  finally have hi: "\<bar>?x\<bar> < 2 ^ 1024" by simp
  show ?thesis
  proof (cases "m = 0")
    case True
    with n show ?thesis by (simp add: round64_def Let_def)
  next
    case False
    then have "?x \<noteq> 0" by simp
    with n hi show ?thesis by (auto simp: round64_def Let_def simp del: abs_mult)
  qed
qed

lemma round64_of_int:
  assumes "\<bar>m\<bar> < 2 ^ 53"
  shows "round64 (of_int m) = Finite (of_int m)"
  using round64_exact [OF assms, of 0] by simp

lemma round64_numeral:
  assumes "(numeral n :: int) < 2 ^ 53"
  shows "round64 (numeral n) = Finite (numeral n)"
  using round64_of_int [of "numeral n"] assms by simp

lemma dbl_mul_Finite:
  "x \<noteq> 0 \<Longrightarrow> y \<noteq> 0 \<Longrightarrow> dbl_mul (Finite x) (Finite y) = round64 (x * y)"
  by (simp add: dbl_mul_def)

lemma dbl_div_Finite:
  "x \<noteq> 0 \<Longrightarrow> y \<noteq> 0 \<Longrightarrow> dbl_div (Finite x) (Finite y) = round64 (x / y)"
  by (simp add: dbl_div_def)

lemma dbl_of_int_exact: "\<bar>k\<bar> < 2 ^ 53 \<Longrightarrow> dbl_of_int k = Finite (of_int k)"
  by (simp add: dbl_of_int_def round64_of_int)

text \<open>Product and quotient in the normal range: both roundings stay finite and
  each is off by at most one part in \<open>2 ^ 53\<close>.\<close>

lemma estimateDistance_in_range:
  assumes w: "0 < w" "w < 2 ^ 31"
    and lo: "2 powi (- 990) \<le> \<bar>rw * fl\<bar>" and hi: "\<bar>rw * fl\<bar> < 2 ^ 1023"
  shows "\<exists>p d. round64 (rw * fl) = Finite p \<and> \<bar>p - rw * fl\<bar> \<le> \<bar>rw * fl\<bar> / 2 ^ 53
           \<and> (0 < rw * fl \<longrightarrow> 0 < p)
           \<and> estimateDistance (Finite rw) (Finite fl) w = Finite d
           \<and> \<bar>d - p / of_int w\<bar> \<le> \<bar>p / of_int w\<bar> / 2 ^ 53
           \<and> (0 < rw * fl \<longrightarrow> 0 < d)"
proof -
  define u :: real where "u = 1 / 2 ^ 53"
  define A :: real where "A = 2 powi (- 1022)"
  define T :: real where "T = 2 ^ 31"
  define H :: real where "H = 2 ^ 1023"
  define x where "x = rw * fl"
  have u: "0 < u" "u \<le> 1 / 4" by (simp_all add: u_def)
  have A: "0 < A" by (simp add: A_def)
  have T: "1 \<le> T" by (simp add: T_def)
  have H2: "2 ^ 1024 = 2 * H" by (simp add: H_def)
  have B: "2 powi (- 990) = 2 * A * T"
  proof -
    have "(- 990::int) = - 1022 + 32" by simp
    then have "(2::real) powi (- 990) = 2 powi (- 1022 + 32)" by (simp only:)
    also have "\<dots> = 2 powi (- 1022) * 2 powi 32" by (rule power_int_add) simp
    also have "(2::real) powi 32 = 2 * T" by (simp add: T_def)
    finally show ?thesis by (simp add: A_def)
  qed
  from lo have lo': "2 * A * T \<le> \<bar>x\<bar>" by (simp only: B x_def)
  from hi have hi': "\<bar>x\<bar> < H" by (simp only: H_def x_def)
  have AT: "0 < A * T" using A T by (intro mult_pos_pos) simp_all
  with lo' have x0: "0 < \<bar>x\<bar>" by linarith
  then have nz: "rw \<noteq> 0" "fl \<noteq> 0" by (auto simp: x_def)
  have "A * 1 \<le> A * T" using A T by (intro mult_left_mono) simp_all
  with lo' AT have lo1: "A \<le> \<bar>x\<bar>" by linarith
  have "\<bar>x\<bar> * (1 + u) \<le> \<bar>x\<bar> * 2" using u x0 by (intro mult_left_mono) simp_all
  with hi' have hi1: "\<bar>x\<bar> * (1 + u) < 2 * H" by linarith
  from round64_normal [of x] lo1 hi1 obtain p where
    p: "round64 x = Finite p" and pe: "\<bar>p - x\<bar> \<le> \<bar>x\<bar> * u"
    and pp: "0 < x \<longrightarrow> 0 < p" and pn: "x < 0 \<longrightarrow> p < 0"
    unfolding A_def u_def H2 [symmetric] by auto
  from x0 pp pn have p0: "p \<noteq> 0" by (cases "0 < x") auto
  have xu: "\<bar>x\<bar> * (1 - u) = \<bar>x\<bar> - \<bar>x\<bar> * u" "\<bar>x\<bar> * (1 + u) = \<bar>x\<bar> + \<bar>x\<bar> * u"
    by (simp_all add: algebra_simps)
  have pl: "\<bar>x\<bar> * (1 - u) \<le> \<bar>p\<bar>" and ph: "\<bar>p\<bar> \<le> \<bar>x\<bar> * (1 + u)"
    unfolding xu using pe by linarith+
  have wr: "(0::real) < of_int w" "real_of_int w \<le> T" "1 \<le> real_of_int w"
  proof -
    show "(0::real) < of_int w" using w(1) by simp
    from w(2) have "real_of_int w < real_of_int (2 ^ 31)" by (simp only: of_int_less_iff)
    then show "real_of_int w \<le> T" by (simp add: T_def)
    from w(1) have "1 \<le> w" by simp
    then have "real_of_int 1 \<le> real_of_int w" by (simp only: of_int_le_iff)
    then show "1 \<le> real_of_int w" by simp
  qed
  from w have "\<bar>w\<bar> < 2 ^ 53" by simp
  then have wi: "dbl_of_int w = Finite (of_int w)" by (rule dbl_of_int_exact)
  define y where "y = p / of_int w"
  have est: "estimateDistance (Finite rw) (Finite fl) w = round64 y"
    using nz p p0 wr(1)
    by (simp add: estimateDistance_def dbl_mul_Finite wi dbl_div_Finite x_def y_def)
  have ay: "\<bar>y\<bar> = \<bar>p\<bar> / of_int w" using wr(1) by (simp add: y_def)
  have lo2: "A \<le> \<bar>y\<bar>"
  proof -
    have "\<bar>x\<bar> * (3 / 4) \<le> \<bar>x\<bar> * (1 - u)" using u x0 by (intro mult_left_mono) simp_all
    with pl lo' AT have "A * T \<le> \<bar>p\<bar>" by linarith
    then have "A * T / of_int w \<le> \<bar>p\<bar> / of_int w" using wr(1) by (intro divide_right_mono) simp_all
    moreover have "A \<le> A * T / of_int w"
    proof -
      have "A * of_int w \<le> A * T" using A wr(2) by (intro mult_left_mono) simp_all
      then show ?thesis using wr(1) by (simp add: le_divide_eq)
    qed
    ultimately show ?thesis unfolding ay by linarith
  qed
  have yp: "\<bar>y\<bar> \<le> \<bar>p\<bar>"
  proof -
    have "\<bar>p\<bar> / of_int w \<le> \<bar>p\<bar> / 1" using wr by (intro divide_left_mono) simp_all
    then show ?thesis unfolding ay by simp
  qed
  have hi2: "\<bar>y\<bar> * (1 + u) < 2 * H"
  proof -
    have "\<bar>y\<bar> * (1 + u) \<le> (\<bar>x\<bar> * (1 + u)) * (1 + u)"
      using yp ph u by (intro mult_right_mono) simp_all
    also have "\<dots> = \<bar>x\<bar> * ((1 + u) * (1 + u))" by simp
    also have "\<dots> \<le> \<bar>x\<bar> * 2"
    proof -
      have "(1 + u) * (1 + u) \<le> (5 / 4) * (5 / 4)" using u by (intro mult_mono) simp_all
      then have "(1 + u) * (1 + u) \<le> 2" by simp
      then show ?thesis using x0 by (intro mult_left_mono) simp_all
    qed
    finally show ?thesis using hi' by linarith
  qed
  from round64_normal [of y] lo2 hi2 obtain d where
    d: "round64 y = Finite d" and de: "\<bar>d - y\<bar> \<le> \<bar>y\<bar> / 2 ^ 53"
    and dp: "0 < y \<longrightarrow> 0 < d"
    unfolding A_def u_def H2 [symmetric] by auto
  have "0 < x \<longrightarrow> 0 < d"
  proof
    assume "0 < x"
    with pp have "0 < p" by simp
    with wr(1) have "0 < y" by (simp add: y_def)
    with dp show "0 < d" by simp
  qed
  with p pe pp est d de show ?thesis
    unfolding x_def y_def u_def by auto
qed

text \<open>Overflow, underflow and a quotient that is not a binary64 number.\<close>

lemma binade_top:
  assumes "2 powi 1023 \<le> a"
  shows "binade a = 1023"
proof (rule ccontr)
  assume "binade a \<noteq> 1023"
  with binade_range(2) [of a] have lt: "binade a < 1023" by simp
  with binade_upto_props [of a 2045] have "a < 2 powi (binade a + 1)" by (simp add: binade_def)
  also have "(2::real) powi (binade a + 1) \<le> 2 powi 1023"
    using lt by (intro power_int_increasing) simp_all
  finally have "a < 2 powi 1023" .
  with assms show False by (blast dest: leD)
qed

lemma round64_overflow:
  assumes "2 ^ 1024 \<le> \<bar>x\<bar>"
  shows "round64 x = (if x < 0 then MinusInf else PlusInf)"
proof -
  let ?a = "\<bar>x\<bar>"
  have "(2::real) powi 1023 \<le> 2 ^ 1024" by simp
  with assms have "2 powi 1023 \<le> ?a" by linarith
  then have b: "binade ?a = 1023" by (rule binade_top)
  let ?t = "?a / 2 powi 971"
  have t0: "0 \<le> ?t" by simp
  have "(2::real) ^ 1024 = 2 ^ 53 * 2 powi 971"
    using power_int_add [of "2::real" 53 971] by simp
  with assms have "2 ^ 53 * 2 powi 971 \<le> ?a" by simp
  then have t: "2 ^ 53 \<le> ?t" by (simp add: le_divide_eq)
  from round_half_even_error [OF t0] have "?t - 1 / 2 \<le> real (round_half_even ?t)" by linarith
  with t have "(2::real) ^ 53 - 1 / 2 \<le> real (round_half_even ?t)" by linarith
  moreover have "real (2 ^ 53 - 1) < (2::real) ^ 53 - 1 / 2" by simp
  ultimately have "real (2 ^ 53 - 1) < real (round_half_even ?t)" by linarith
  then have "2 ^ 53 - 1 < round_half_even ?t" by (simp only: of_nat_less_iff)
  then have "2 ^ 53 \<le> round_half_even ?t" by simp
  then have "real (2 ^ 53) \<le> real (round_half_even ?t)" by (simp only: of_nat_le_iff)
  then have "(2::real) ^ 53 * 2 powi 971 \<le> real (round_half_even ?t) * 2 powi 971"
    by (intro mult_right_mono) simp_all
  with \<open>(2::real) ^ 1024 = 2 ^ 53 * 2 powi 971\<close>
  have "2 ^ 1024 \<le> nearest ?a" by (simp add: nearest_def Let_def b)
  then show ?thesis by (simp add: round64_def Let_def)
qed

lemma round64_7_40: "round64 (7 / 40) = Finite (3152519739159347 / 18014398509481984)"
proof -
  have "binade (7 / 40) = - 3" by (rule binade_eqI) simp_all
  then show ?thesis
    by (simp add: round64_def nearest_def Let_def round_half_even_def)
qed

lemma round64_tiny:
  assumes "0 \<le> x" and "x \<le> 2 powi (- 1075)"
  shows "round64 x = Finite 0"
proof -
  have "(2::real) powi (- 1075) < 2 powi (- 1021)" by (intro power_int_strict_increasing) simp_all
  with assms have "x < 2 powi (- 1021)" by simp
  then have b: "binade x = - 1022" by (rule binade_subnormal)
  then have q: "binade x - 52 = - 1074" by simp
  have ax: "\<bar>x\<bar> = x" using assms(1) by simp
  let ?t = "x / 2 powi (- 1074)"
  have "(2::real) powi (- 1075) = 2 powi (- 1074) * (1 / 2)"
    using power_int_add [of "2::real" "- 1074" "- 1"] by simp
  with assms(2) have "x \<le> 2 powi (- 1074) * (1 / 2)" by simp
  then have t: "?t \<le> 1 / 2" by (simp add: divide_le_eq mult.commute)
  have t0: "0 \<le> ?t" using assms(1) by simp
  then have "\<lfloor>?t\<rfloor> = 0" using t by (intro floor_unique) simp_all
  then have r0: "round_half_even ?t = 0" using t by (simp add: round_half_even_def Let_def)
  have "nearest x = of_nat (round_half_even ?t) * 2 powi (- 1074)"
    by (simp only: nearest_def Let_def q)
  with r0 have "nearest x = 0" by simp
  then show ?thesis using assms(1) by (simp add: round64_def Let_def ax)
qed

subsection \<open>Evaluating number strings on numerals\<close>

lemma to_string_nat_eval:
  "to_string_nat 0 = ''0''"
  "to_string_nat 1 = ''1''"
  "to_string_nat (Suc 0) = ''1''"
  "to_string_nat (numeral k) =
     (if numeral k < (10::nat) then [digit_char (numeral k)]
      else to_string_nat (numeral k div 10) @ [digit_char (numeral k mod 10)])"
proof -
  show "to_string_nat 0 = ''0''" by (subst to_string_nat.simps) (simp add: digit_char_def)
  show "to_string_nat 1 = ''1''" by (subst to_string_nat.simps) (simp add: digit_char_def)
  then show "to_string_nat (Suc 0) = ''1''" by simp
  show "to_string_nat (numeral k) =
     (if numeral k < (10::nat) then [digit_char (numeral k)]
      else to_string_nat (numeral k div 10) @ [digit_char (numeral k mod 10)])"
    by (subst to_string_nat.simps) (rule refl)
qed

lemmas fixed2_eval = fixed2_def round_half_even_def Let_def to_string_nat_eval digit_char_def

text \<open>The distances of the concrete session are exact.\<close>

lemma demo_distances:
  "estimateDistance (Finite 14) (Finite 800) 100 = Finite 112"
  "estimateDistance (Finite 14) (Finite 800) 200 = Finite 56"
  "estimateDistance (Finite 14) (Finite 800) 50 = Finite 224"
  by (simp_all add: estimateDistance_def dbl_mul_def dbl_div_def dbl_of_int_def round64_numeral)

lemma to_string_nat_Suc:
  "to_string_nat (Suc n) =
     (if Suc n < 10 then [digit_char (Suc n)]
      else to_string_nat (Suc n div 10) @ [digit_char (Suc n mod 10)])"
  by (subst to_string_nat.simps) (rule refl)

lemmas run_eval = processFrame_def annotateFrame_def annotateLoop.simps annotateFace_def
  getUniqueFilename_def uniqueLoop.simps resizeFacesSaved_def vector_resize_def create_directory_def fs_exists_def
  imwrite_def suffixed_def to_string_def labelText_def faceMessage_def tl_point_def
  demo_distances fixed2_eval to_string_nat_Suc signed_modulo_int_def

lemmas demo_defs = demo_env_def demo_start_def demo_frame1_def demo_disk1_def demo_after1_def
  demo_frame2_def demo_disk2_def demo_after2_def

subsection \<open>The concrete session, evaluated\<close>

lemma demo_start_new: "FaceDetector_new True True True (Finite 800) (Finite 14) 1 [(''faces'', Directory)] = Inr demo_start"
  by (simp add: FaceDetector_new_def demo_start_def)

lemma demo_cycle1: "processFrame demo_env demo_start = Returned demo_after1"
  by (simp add: demo_defs run_eval)

lemma demo_cycle2: "processFrame demo_env demo_after1 = Returned demo_after2"
  by (simp add: demo_defs run_eval)

lemma demo_run2: "run demo_env 2 demo_start = Returned demo_after2"
proof -
  have "run demo_env (Suc (Suc 0)) demo_start = Returned demo_after2"
    by (simp add: demo_cycle1 demo_cycle2)
  then show ?thesis by (simp add: numeral_2_eq_2)
qed

lemma demo_full_cycles:
  "full_cycle demo_env demo_start" "full_cycle demo_env demo_after1" "full_cycle demo_env demo_after2"
  by (simp_all add: full_cycle_def demo_defs signed_modulo_int_def)

lemma demo_mixed_cycle:
  "full_cycle demo_env demo_mixed"
  "length (detectMultiScale demo_env (camera demo_env (video_reads demo_mixed))) = length (facesSaved demo_mixed)"
  "map fst (disk (state_of (processFrame demo_env demo_mixed)))
     = [''faces/face_1700000000_4.jpg'', ''faces/face_1700000000_3.jpg'',
        ''faces/face_1700000000_2.jpg'', ''faces/face_1700000000_1.jpg'',
        ''faces/face_1700000000.jpg'', ''faces'']"
  "drawn (frame (state_of (processFrame demo_env demo_mixed)))
     = [Rectangle (Rect 10 20 100 100), PutText ''Face 1 Dist: 112.00 cm'' (10, 20),
        Rectangle (Rect 200 20 200 200), PutText ''Face 2 Dist: 56.00 cm'' (200, 20),
        Rectangle (Rect 300 300 50 50), PutText ''Face 3 Dist: 224.00 cm'' (300, 300),
        PutText ''3 faces found'' (10, 40)]"
  by (simp_all add: demo_mixed_def demo_defs run_eval full_cycle_def)

lemma faceMessage_values:
  "faceMessage 0 = ''0 face found''" "faceMessage 1 = ''1 face found''"
  "faceMessage 2 = ''2 faces found''"
  by (simp_all add: faceMessage_def to_string_nat_eval digit_char_def)

lemma quiet_cycle:
  "full_cycle quiet_env demo_start"
  "faces (state_of (processFrame quiet_env demo_start)) = []"
  "drawn (frame (state_of (processFrame quiet_env demo_start))) = [PutText ''0 face found'' (10, 40)]"
  "videoWriter (state_of (processFrame quiet_env demo_start)) = [Image 0 [PutText ''0 face found'' (10, 40)]]"
  by (simp_all add: quiet_env_def demo_defs run_eval full_cycle_def)

section \<open>The claims\<close>

text \<open>
  C1 (as amended). When the number of detected faces differs from the length of the
  saved-flag sequence, the sequence is resized to the detection count: every flag at
  a retained index position keeps its value, and only the positions beyond the old
  length are not saved. Nothing else of the detector changes. In a fully processed
  frame the image files written are the slots not saved in the resized sequence.
\<close>

theorem resize_keeps_retained_flags:
  "length (facesSaved (resizeFacesSaved s)) = length (faces s)
   \<and> (\<forall>i<length (faces s).
         facesSaved (resizeFacesSaved s) ! i
           = (if i < length (facesSaved s) then facesSaved s ! i else False))
   \<and> resizeFacesSaved s = s\<lparr>facesSaved := facesSaved (resizeFacesSaved s)\<rparr>
   \<and> (length (facesSaved s) = length (faces s) \<longrightarrow> resizeFacesSaved s = s)
   \<and> (full_cycle e s \<longrightarrow>
        (\<exists>s'. processFrame e s = Returned s'
           \<and> faces s' = detectMultiScale e (camera e (video_reads s))
           \<and> image_regions (disk s')
               = rev (unsaved (faces s') (facesSaved (resizeFacesSaved (s\<lparr>faces := faces s'\<rparr>)))
                        [0..<length (faces s')]) @ image_regions (disk s)))"
proof -
  have a: "length (facesSaved (resizeFacesSaved s)) = length (faces s)"
    by (rule resizeFacesSaved_length)
  have b: "\<forall>i<length (faces s).
         facesSaved (resizeFacesSaved s) ! i
           = (if i < length (facesSaved s) then facesSaved s ! i else False)"
    using resizeFacesSaved_nth [of _ s] by blast
  have c: "resizeFacesSaved s = s\<lparr>facesSaved := facesSaved (resizeFacesSaved s)\<rparr>"
    by (simp add: resizeFacesSaved_def)
  have d: "length (facesSaved s) = length (faces s) \<longrightarrow> resizeFacesSaved s = s"
    by (simp add: resizeFacesSaved_def)
  have f: "\<exists>s'. processFrame e s = Returned s'
           \<and> faces s' = detectMultiScale e (camera e (video_reads s))
           \<and> image_regions (disk s')
               = rev (unsaved (faces s') (facesSaved (resizeFacesSaved (s\<lparr>faces := faces s'\<rparr>)))
                        [0..<length (faces s')]) @ image_regions (disk s)"
    if fc: "full_cycle e s"
  proof -
    from processFrame_full_cycle [OF fc] obtain s' where
      r: "processFrame e s = Returned s'"
      and f: "faces s' = detectMultiScale e (camera e (video_reads s))"
      and ir: "image_regions (disk s')
               = rev (unsaved (faces s') (vector_resize (facesSaved s) (length (faces s')) False)
                        [0..<length (faces s')]) @ image_regions (disk s)"
      by blast
    have "facesSaved (resizeFacesSaved (s\<lparr>faces := faces s'\<rparr>))
            = vector_resize (facesSaved s) (length (faces s')) False"
      by (simp add: resizeFacesSaved_eq vector_resize_def)
    with r f ir show ?thesis by simp
  qed
  from a b c d f show ?thesis by blast
qed

theorem resize_keeps_retained_flags_witness:
  "full_cycle demo_env demo_after1
   \<and> facesSaved demo_after1 = [True, True]
   \<and> facesSaved (resizeFacesSaved (demo_after1\<lparr>faces := faces demo_after2\<rparr>)) = [True, True, False]
   \<and> processFrame demo_env demo_after1 = Returned demo_after2
   \<and> image_regions (disk demo_after2) = [Rect 300 300 50 50] @ image_regions (disk demo_after1)"
proof -
  note h = demo_full_cycles(2)
  from resize_keeps_retained_flags [of "demo_after1\<lparr>faces := faces demo_after2\<rparr>"]
  have n: "\<forall>i<length (faces (demo_after1\<lparr>faces := faces demo_after2\<rparr>)).
         facesSaved (resizeFacesSaved (demo_after1\<lparr>faces := faces demo_after2\<rparr>)) ! i
           = (if i < length (facesSaved (demo_after1\<lparr>faces := faces demo_after2\<rparr>))
              then facesSaved (demo_after1\<lparr>faces := faces demo_after2\<rparr>) ! i else False)"
    and l: "length (facesSaved (resizeFacesSaved (demo_after1\<lparr>faces := faces demo_after2\<rparr>)))
            = length (faces (demo_after1\<lparr>faces := faces demo_after2\<rparr>))"
    by blast+
  have l3: "length (facesSaved (resizeFacesSaved (demo_after1\<lparr>faces := faces demo_after2\<rparr>))) = 3"
    using l by (simp add: demo_defs)
  have "facesSaved (resizeFacesSaved (demo_after1\<lparr>faces := faces demo_after2\<rparr>)) ! 0 = True"
    "facesSaved (resizeFacesSaved (demo_after1\<lparr>faces := faces demo_after2\<rparr>)) ! Suc 0 = True"
    "facesSaved (resizeFacesSaved (demo_after1\<lparr>faces := faces demo_after2\<rparr>)) ! Suc (Suc 0) = False"
    using n by (simp_all add: demo_defs)
  with l3 have r: "facesSaved (resizeFacesSaved (demo_after1\<lparr>faces := faces demo_after2\<rparr>)) = [True, True, False]"
    by (intro nth_equalityI) (auto simp: less_Suc_eq numeral_3_eq_3)
  from resize_keeps_retained_flags [of demo_after1 demo_env] h obtain s' where
    p: "processFrame demo_env demo_after1 = Returned s'"
    and ir: "image_regions (disk s')
               = rev (unsaved (faces s') (facesSaved (resizeFacesSaved (demo_after1\<lparr>faces := faces s'\<rparr>)))
                        [0..<length (faces s')]) @ image_regions (disk demo_after1)"
    by blast
  from p have s': "s' = demo_after2" by (simp add: demo_cycle2)
  have u: "[0..<length (faces demo_after2)] = [0, 1, 2]" by (simp add: demo_defs upt_rec)
  have "image_regions (disk demo_after2) = [Rect 300 300 50 50] @ image_regions (disk demo_after1)"
    using ir unfolding s' r u by (simp add: unsaved_def demo_after2_def)
  moreover have "facesSaved demo_after1 = [True, True]" by (simp add: demo_defs)
  ultimately show ?thesis using h r demo_cycle2 by blast
qed

text \<open>The claim as written fails in the second frame of the session: the count goes
  from 2 to 3, the two retained flags stay set, and only the third face is written
  to disk.\<close>

theorem resize_reset_counterexample:
  "processFrame demo_env demo_start = Returned demo_after1
   \<and> facesSaved demo_after1 = [True, True]
   \<and> length (detectMultiScale demo_env (camera demo_env (video_reads demo_after1))) = 3
   \<and> facesSaved (resizeFacesSaved
        (demo_after1\<lparr>faces := detectMultiScale demo_env (camera demo_env (video_reads demo_after1))\<rparr>))
       = [True, True, False]
   \<and> facesSaved (resizeFacesSaved
        (demo_after1\<lparr>faces := detectMultiScale demo_env (camera demo_env (video_reads demo_after1))\<rparr>))
       \<noteq> [False, False, False]
   \<and> processFrame demo_env demo_after1 = Returned demo_after2
   \<and> map fst (disk demo_after1) = [''faces/face_1700000000_1.jpg'', ''faces/face_1700000000.jpg'', ''faces'']
   \<and> map fst (disk demo_after2) = ''faces/face_1700000000_2.jpg'' # map fst (disk demo_after1)"
  using demo_cycle1 demo_cycle2
  by (simp add: demo_defs resizeFacesSaved_def vector_resize_def)

text \<open>
  C2 (as amended). On every fully processed frame the last thing drawn on the frame,
  which is the frame handed to the video sink, is the summary line at position
  (10, 40): the detection count followed by \<open>face found\<close>, with the plural \<open>faces\<close>
  exactly when the count exceeds 1. So 0 detections give \<open>0 face found\<close>, 1 detection
  gives \<open>1 face found\<close> and 2 detections give \<open>2 faces found\<close>.
\<close>

theorem summary_line:
  "(full_cycle e s \<longrightarrow>
      (\<exists>s'. processFrame e s = Returned s'
         \<and> faces s' = detectMultiScale e (camera e (video_reads s))
         \<and> drawn (frame s') \<noteq> []
         \<and> last (drawn (frame s')) = PutText (faceMessage (length (faces s'))) (10, 40)
         \<and> last (videoWriter s') = frame s'))
   \<and> faceMessage n = to_string_nat n @ (if 1 < n then '' faces found'' else '' face found'')
   \<and> faceMessage 0 = ''0 face found''
   \<and> faceMessage 1 = ''1 face found''
   \<and> faceMessage 2 = ''2 faces found''"
proof -
  have a: "\<exists>s'. processFrame e s = Returned s'
         \<and> faces s' = detectMultiScale e (camera e (video_reads s))
         \<and> drawn (frame s') \<noteq> []
         \<and> last (drawn (frame s')) = PutText (faceMessage (length (faces s'))) (10, 40)
         \<and> last (videoWriter s') = frame s'"
    if fc: "full_cycle e s"
  proof -
    from fc have cap: "camera e (video_reads s) \<noteq> EmptyMat" by (simp add: full_cycle_def)
    from processFrame_full_cycle [OF fc] obtain s' where
      r: "processFrame e s = Returned s'"
      and f: "faces s' = detectMultiScale e (camera e (video_reads s))"
      and fr: "frame s' = draw (PutText (faceMessage (length (faces s'))) (10, 40))
                           (fold draw (face_drawings (realFaceWidth s) (focalLength s) (faces s')
                                         [0..<length (faces s')]) (camera e (video_reads s)))"
      and vw: "videoWriter s' = videoWriter s @ [frame s']"
      by blast
    have d: "drawn (frame s')
               = (drawn (camera e (video_reads s))
                 @ face_drawings (realFaceWidth s) (focalLength s) (faces s') [0..<length (faces s')])
                 @ [PutText (faceMessage (length (faces s'))) (10, 40)]"
      using cap by (simp add: fr drawn_draw drawn_fold_draw fold_draw_nonempty)
    have "drawn (frame s') \<noteq> []" by (simp add: d)
    moreover have "last (drawn (frame s')) = PutText (faceMessage (length (faces s'))) (10, 40)"
      by (simp only: d last_snoc)
    moreover have "last (videoWriter s') = frame s'" by (simp add: vw)
    ultimately show ?thesis using r f by blast
  qed
  have b: "faceMessage n = to_string_nat n @ (if 1 < n then '' faces found'' else '' face found'')"
    by (simp add: faceMessage_def)
  from a b faceMessage_values show ?thesis by blast
qed

theorem summary_line_witness:
  "full_cycle demo_env demo_after1
   \<and> processFrame demo_env demo_after1 = Returned demo_after2
   \<and> length (faces demo_after2) = 3
   \<and> last (drawn (frame demo_after2)) = PutText ''3 faces found'' (10, 40)
   \<and> last (videoWriter demo_after2) = frame demo_after2"
proof -
  note h = demo_full_cycles(2)
  from summary_line [of demo_env demo_after1 3] h obtain s' where
    r: "processFrame demo_env demo_after1 = Returned s'"
    and l: "last (drawn (frame s')) = PutText (faceMessage (length (faces s'))) (10, 40)"
    and v: "last (videoWriter s') = frame s'"
    and m: "faceMessage 3 = to_string_nat 3 @ (if 1 < (3::nat) then '' faces found'' else '' face found'')"
    by blast
  from r have s': "s' = demo_after2" by (simp add: demo_cycle2)
  have n: "length (faces demo_after2) = 3" by (simp add: demo_defs)
  from m have "faceMessage 3 = ''3 faces found''" by (simp add: to_string_nat_eval digit_char_def)
  with l v s' n h demo_cycle2 show ?thesis by simp
qed

text \<open>The summary line for no detection, as the claim has it, is not what is drawn:
  in front of an empty room the first frame carries \<open>0 face found\<close>.\<close>

theorem summary_line_counterexample:
  "full_cycle quiet_env demo_start
   \<and> faces (state_of (processFrame quiet_env demo_start)) = []
   \<and> drawn (frame (state_of (processFrame quiet_env demo_start))) = [PutText ''0 face found'' (10, 40)]
   \<and> last (drawn (frame (state_of (processFrame quiet_env demo_start)))) \<noteq> PutText ''0 faces found'' (10, 40)
   \<and> faceMessage 0 \<noteq> ''0 faces found''"
  using quiet_cycle by (simp add: faceMessage_values)

text \<open>
  C3. Let the speed-up factor \<open>f\<close> be at least 1, stored as \<^verbatim>\<open>frameSkipCount = f - 1\<close>,
  let the frame counter be 0, and let the camera deliver \<open>n\<close> frames. Then all \<open>n\<close> calls
  of \<^verbatim>\<open>processFrame\<close> return, and \<open>n div f\<close> frames have gone to the video sink. The
  call for capture number \<open>k + 1\<close> is a full cycle exactly when \<open>f\<close> divides \<open>k + 1\<close>: it
  detects, annotates (the frame carries the box and the label of every detection and
  the summary line, the faces not yet saved are written to disk, every saved flag is
  set), writes the annotated frame to the sink and leaves the counter at 0. Every
  other call only stores the captured frame and increments the counter, which is
  \<open>k mod f\<close> before the call and is not reset. Any \<open>f\<close> consecutive captures send exactly
  one frame to the sink.
\<close>

theorem one_frame_in_f_processed:
  assumes "1 \<le> f" and "frameSkipCount s0 = f - 1" and "frameCounter s0 = 0"
    and "\<forall>k<n. camera e (video_reads s0 + k) \<noteq> EmptyMat"
  shows "(\<exists>s'. run e n s0 = Returned s'
            \<and> int (length (videoWriter s')) = int (length (videoWriter s0)) + int n div f
            \<and> frameCounter s' = int n mod f)
         \<and> (\<forall>k<n. \<exists>sk. run e k s0 = Returned sk \<and> frameCounter sk = int k mod f
               \<and> (if f dvd int (k + 1)
                   then full_cycle e sk
                        \<and> (\<exists>sk'. processFrame e sk = Returned sk' \<and> frameCounter sk' = 0
                               \<and> videoWriter sk' = videoWriter sk @ [frame sk']
                               \<and> faces sk' = detectMultiScale e (camera e (video_reads sk))
                               \<and> frame sk'
                                   = draw (PutText (faceMessage (length (faces sk'))) (10, 40))
                                       (fold draw
                                          (face_drawings (realFaceWidth sk) (focalLength sk) (faces sk')
                                             [0..<length (faces sk')])
                                          (camera e (video_reads sk)))
                               \<and> facesSaved sk' = replicate (length (faces sk')) True
                               \<and> image_regions (disk sk')
                                   = rev (unsaved (faces sk')
                                            (vector_resize (facesSaved sk) (length (faces sk')) False)
                                            [0..<length (faces sk')])
                                     @ image_regions (disk sk))
                   else processFrame e sk =
                          Returned (sk\<lparr>frame := camera e (video_reads sk),
                                       video_reads := video_reads sk + 1,
                                       frameCounter := frameCounter sk + 1\<rparr>)))
         \<and> (\<forall>m. m + nat f \<le> n \<longrightarrow>
               (\<exists>s1 s2. run e m s0 = Returned s1 \<and> run e (m + nat f) s0 = Returned s2
                    \<and> length (videoWriter s2) = length (videoWriter s1) + 1))"
proof -
  from assms(1,3) have c0: "0 \<le> frameCounter s0" "frameCounter s0 < f" by simp_all
  have upto: "\<exists>s'. run e k s0 = Returned s' \<and> frameSkipCount s' = f - 1
           \<and> frameCounter s' = int k mod f
           \<and> int (length (videoWriter s')) = int (length (videoWriter s0)) + int k div f
           \<and> video_reads s' = video_reads s0 + k" if "k \<le> n" for k
  proof -
    from that assms(4) have "\<forall>j<k. camera e (video_reads s0 + j) \<noteq> EmptyMat" by simp
    from run_counter [OF assms(1,2) c0 this] show ?thesis by (simp add: assms(3))
  qed
  have p1: "\<exists>s'. run e n s0 = Returned s'
            \<and> int (length (videoWriter s')) = int (length (videoWriter s0)) + int n div f
            \<and> frameCounter s' = int n mod f"
    using upto [of n] by auto
  have p2: "\<forall>k<n. \<exists>sk. run e k s0 = Returned sk \<and> frameCounter sk = int k mod f
               \<and> (if f dvd int (k + 1)
                   then full_cycle e sk
                        \<and> (\<exists>sk'. processFrame e sk = Returned sk' \<and> frameCounter sk' = 0
                               \<and> videoWriter sk' = videoWriter sk @ [frame sk']
                               \<and> faces sk' = detectMultiScale e (camera e (video_reads sk))
                               \<and> frame sk'
                                   = draw (PutText (faceMessage (length (faces sk'))) (10, 40))
                                       (fold draw
                                          (face_drawings (realFaceWidth sk) (focalLength sk) (faces sk')
                                             [0..<length (faces sk')])
                                          (camera e (video_reads sk)))
                               \<and> facesSaved sk' = replicate (length (faces sk')) True
                               \<and> image_regions (disk sk')
                                   = rev (unsaved (faces sk')
                                            (vector_resize (facesSaved sk) (length (faces sk')) False)
                                            [0..<length (faces sk')])
                                     @ image_regions (disk sk))
                   else processFrame e sk =
                          Returned (sk\<lparr>frame := camera e (video_reads sk),
                                       video_reads := video_reads sk + 1,
                                       frameCounter := frameCounter sk + 1\<rparr>))"
  proof (intro allI impI)
    fix k assume kn: "k < n"
    with upto [of k] obtain sk where r: "run e k s0 = Returned sk"
      and sk: "frameSkipCount sk = f - 1" and c: "frameCounter sk = int k mod f"
      and vr: "video_reads sk = video_reads s0 + k"
      by auto
    from assms(1) c have cr: "0 \<le> frameCounter sk" "frameCounter sk < f" by simp_all
    from kn assms(4) vr have cap: "camera e (video_reads sk) \<noteq> EmptyMat" by simp
    note step = counter_step [OF assms(1) sk cr cap]
    from assms(1) have "0 < f" by simp
    from dvd_succ_iff [OF this, of "int k"] c
    have d: "f dvd int (k + 1) \<longleftrightarrow> frameCounter sk + 1 = f" by (simp add: add.commute)
    have "if f dvd int (k + 1)
                   then full_cycle e sk
                        \<and> (\<exists>sk'. processFrame e sk = Returned sk' \<and> frameCounter sk' = 0
                               \<and> videoWriter sk' = videoWriter sk @ [frame sk']
                               \<and> faces sk' = detectMultiScale e (camera e (video_reads sk))
                               \<and> frame sk'
                                   = draw (PutText (faceMessage (length (faces sk'))) (10, 40))
                                       (fold draw
                                          (face_drawings (realFaceWidth sk) (focalLength sk) (faces sk')
                                             [0..<length (faces sk')])
                                          (camera e (video_reads sk)))
                               \<and> facesSaved sk' = replicate (length (faces sk')) True
                               \<and> image_regions (disk sk')
                                   = rev (unsaved (faces sk')
                                            (vector_resize (facesSaved sk) (length (faces sk')) False)
                                            [0..<length (faces sk')])
                                     @ image_regions (disk sk))
                   else processFrame e sk =
                          Returned (sk\<lparr>frame := camera e (video_reads sk),
                                       video_reads := video_reads sk + 1,
                                       frameCounter := frameCounter sk + 1\<rparr>)"
    proof (cases "f dvd int (k + 1)")
      case True
      with d step have fc: "full_cycle e sk" by simp
      from processFrame_full_cycle [OF fc] obtain sk' where
        "processFrame e sk = Returned sk'" "frameCounter sk' = 0"
        "videoWriter sk' = videoWriter sk @ [frame sk']"
        "faces sk' = detectMultiScale e (camera e (video_reads sk))"
        "frame sk'
           = draw (PutText (faceMessage (length (faces sk'))) (10, 40))
               (fold draw
                  (face_drawings (realFaceWidth sk) (focalLength sk) (faces sk')
                     [0..<length (faces sk')])
                  (camera e (video_reads sk)))"
        "facesSaved sk' = replicate (length (faces sk')) True"
        "image_regions (disk sk')
           = rev (unsaved (faces sk')
                    (vector_resize (facesSaved sk) (length (faces sk')) False)
                    [0..<length (faces sk')])
             @ image_regions (disk sk)"
        by blast
      with True fc show ?thesis by auto
    next
      case False
      with d step show ?thesis by simp
    qed
    with r c show "\<exists>sk. run e k s0 = Returned sk \<and> frameCounter sk = int k mod f
               \<and> (if f dvd int (k + 1)
                   then full_cycle e sk
                        \<and> (\<exists>sk'. processFrame e sk = Returned sk' \<and> frameCounter sk' = 0
                               \<and> videoWriter sk' = videoWriter sk @ [frame sk']
                               \<and> faces sk' = detectMultiScale e (camera e (video_reads sk))
                               \<and> frame sk'
                                   = draw (PutText (faceMessage (length (faces sk'))) (10, 40))
                                       (fold draw
                                          (face_drawings (realFaceWidth sk) (focalLength sk) (faces sk')
                                             [0..<length (faces sk')])
                                          (camera e (video_reads sk)))
                               \<and> facesSaved sk' = replicate (length (faces sk')) True
                               \<and> image_regions (disk sk')
                                   = rev (unsaved (faces sk')
                                            (vector_resize (facesSaved sk) (length (faces sk')) False)
                                            [0..<length (faces sk')])
                                     @ image_regions (disk sk))
                   else processFrame e sk =
                          Returned (sk\<lparr>frame := camera e (video_reads sk),
                                       video_reads := video_reads sk + 1,
                                       frameCounter := frameCounter sk + 1\<rparr>))"
      by blast
  qed
  have p3: "\<forall>m. m + nat f \<le> n \<longrightarrow>
               (\<exists>s1 s2. run e m s0 = Returned s1 \<and> run e (m + nat f) s0 = Returned s2
                    \<and> length (videoWriter s2) = length (videoWriter s1) + 1)"
  proof (intro allI impI)
    fix m assume mn: "m + nat f \<le> n"
    then have "m \<le> n" by simp
    with upto [of m] obtain s1 where r1: "run e m s0 = Returned s1"
      and v1: "int (length (videoWriter s1)) = int (length (videoWriter s0)) + int m div f"
      by auto
    from upto [OF mn] obtain s2 where r2: "run e (m + nat f) s0 = Returned s2"
      and v2: "int (length (videoWriter s2)) = int (length (videoWriter s0)) + int (m + nat f) div f"
      by auto
    from assms(1) have e: "int (m + nat f) = int m + f" by simp
    from assms(1) have "(int m + f) div f = int m div f + 1" by simp
    with v2 have "int (length (videoWriter s2)) = int (length (videoWriter s0)) + (int m div f + 1)"
      unfolding e by simp
    with v1 have "int (length (videoWriter s2)) = int (length (videoWriter s1)) + 1"
      by simp
    then have "length (videoWriter s2) = length (videoWriter s1) + 1" by linarith
    with r1 r2 show "\<exists>s1 s2. run e m s0 = Returned s1 \<and> run e (m + nat f) s0 = Returned s2
                    \<and> length (videoWriter s2) = length (videoWriter s1) + 1"
      by blast
  qed
  from p1 p2 p3 show ?thesis by blast
qed

theorem one_frame_in_f_processed_witness:
  "(1::int) \<le> 2 \<and> frameSkipCount demo_skip = 2 - 1 \<and> frameCounter demo_skip = 0
   \<and> camera quiet_env (video_reads demo_skip + 0) \<noteq> EmptyMat
   \<and> camera quiet_env (video_reads demo_skip + 1) \<noteq> EmptyMat
   \<and> camera quiet_env (video_reads demo_skip + 2) \<noteq> EmptyMat
   \<and> thrown (run quiet_env 3 demo_skip) = None
   \<and> length (videoWriter (state_of (run quiet_env 1 demo_skip))) = 0
   \<and> length (videoWriter (state_of (run quiet_env 2 demo_skip))) = 1
   \<and> length (videoWriter (state_of (run quiet_env 3 demo_skip))) = 1
   \<and> frameCounter (state_of (run quiet_env 3 demo_skip)) = 1
   \<and> drawn (frame (state_of (run quiet_env 1 demo_skip))) = []
   \<and> drawn (frame (state_of (run quiet_env 2 demo_skip))) = [PutText ''0 face found'' (10, 40)]
   \<and> videoWriter (state_of (run quiet_env 2 demo_skip))
       = [Image 1 [PutText ''0 face found'' (10, 40)]]"
proof -
  have h: "(1::int) \<le> 2" "frameSkipCount demo_skip = 2 - 1" "frameCounter demo_skip = 0"
    by (simp_all add: demo_skip_def demo_defs)
  have cam: "\<forall>k<3. camera quiet_env (video_reads demo_skip + k) \<noteq> EmptyMat"
    by (simp add: quiet_env_def demo_skip_def demo_defs)
  have cam1: "\<forall>k<1. camera quiet_env (video_reads demo_skip + k) \<noteq> EmptyMat"
    and cam2: "\<forall>k<2. camera quiet_env (video_reads demo_skip + k) \<noteq> EmptyMat"
    by (simp_all add: quiet_env_def demo_skip_def demo_defs)
  have c: "camera quiet_env (video_reads demo_skip + 0) \<noteq> EmptyMat"
    "camera quiet_env (video_reads demo_skip + 1) \<noteq> EmptyMat"
    "camera quiet_env (video_reads demo_skip + 2) \<noteq> EmptyMat"
    by (simp_all add: quiet_env_def demo_skip_def demo_defs)
  have v0: "int (length (videoWriter demo_skip)) = 0" by (simp add: demo_skip_def demo_defs)
  from one_frame_in_f_processed [OF h cam] obtain s3 where
    r3: "run quiet_env 3 demo_skip = Returned s3"
    and "int (length (videoWriter s3)) = int (length (videoWriter demo_skip)) + int 3 div 2"
    and "frameCounter s3 = int 3 mod 2"
    by blast
  then have a3: "length (videoWriter s3) = 1" "frameCounter s3 = 1" using v0 by simp_all
  from one_frame_in_f_processed [OF h cam2] obtain s2 where
    r2: "run quiet_env 2 demo_skip = Returned s2"
    and "int (length (videoWriter s2)) = int (length (videoWriter demo_skip)) + int 2 div 2"
    by blast
  then have a2: "length (videoWriter s2) = 1" using v0 by simp
  from one_frame_in_f_processed [OF h cam1] obtain s1 where
    r1: "run quiet_env 1 demo_skip = Returned s1"
    and "int (length (videoWriter s1)) = int (length (videoWriter demo_skip)) + int 1 div 2"
    by blast
  then have a1: "length (videoWriter s1) = 0" using v0 by simp
  have "run quiet_env (Suc 0) demo_skip
          = Returned (demo_skip\<lparr>frame := Image 0 [], video_reads := 1, frameCounter := 1\<rparr>)"
    by (simp add: quiet_env_def demo_skip_def demo_defs run_eval)
  then have e1: "run quiet_env 1 demo_skip
          = Returned (demo_skip\<lparr>frame := Image 0 [], video_reads := 1, frameCounter := 1\<rparr>)"
    by simp
  have "processFrame quiet_env (demo_skip\<lparr>frame := Image 0 [], video_reads := 1, frameCounter := 1\<rparr>)
          = Returned (demo_skip\<lparr>frame := Image 1 [PutText ''0 face found'' (10, 40)],
                                  video_reads := 2, frameCounter := 0,
                                  videoWriter := [Image 1 [PutText ''0 face found'' (10, 40)]]\<rparr>)"
    by (simp add: quiet_env_def demo_skip_def demo_defs run_eval)
  with \<open>run quiet_env (Suc 0) demo_skip
          = Returned (demo_skip\<lparr>frame := Image 0 [], video_reads := 1, frameCounter := 1\<rparr>)\<close>
  have "run quiet_env (Suc (Suc 0)) demo_skip
          = Returned (demo_skip\<lparr>frame := Image 1 [PutText ''0 face found'' (10, 40)],
                                  video_reads := 2, frameCounter := 0,
                                  videoWriter := [Image 1 [PutText ''0 face found'' (10, 40)]]\<rparr>)"
    by (simp add: quiet_env_def demo_skip_def demo_defs run_eval)
  then have e2: "run quiet_env 2 demo_skip
          = Returned (demo_skip\<lparr>frame := Image 1 [PutText ''0 face found'' (10, 40)],
                                  video_reads := 2, frameCounter := 0,
                                  videoWriter := [Image 1 [PutText ''0 face found'' (10, 40)]]\<rparr>)"
    by (simp add: numeral_2_eq_2)
  have d: "drawn (frame (state_of (run quiet_env 1 demo_skip))) = []"
    "drawn (frame (state_of (run quiet_env 2 demo_skip))) = [PutText ''0 face found'' (10, 40)]"
    "videoWriter (state_of (run quiet_env 2 demo_skip))
       = [Image 1 [PutText ''0 face found'' (10, 40)]]"
    unfolding e1 e2 by (simp_all add: demo_skip_def demo_defs)
  from h c r1 r2 r3 a1 a2 a3 d show ?thesis by simp
qed

text \<open>
  C4. In a fully processed frame whose detection count equals the length of the
  saved-flag sequence, the image files written are exactly the slots whose flag was
  not set, one file per such slot and none for a slot whose flag was set; if every
  flag was set the disk stays as it was. Every slot, saved or not, gets its bounding
  box and its distance label drawn, and every flag is set afterwards.
\<close>

theorem saved_slots_not_rewritten:
  assumes "full_cycle e s"
    and "length (detectMultiScale e (camera e (video_reads s))) = length (facesSaved s)"
  shows "\<exists>s'. processFrame e s = Returned s'
           \<and> faces s' = detectMultiScale e (camera e (video_reads s))
           \<and> image_regions (disk s')
               = rev (unsaved (faces s') (facesSaved s) [0..<length (faces s')]) @ image_regions (disk s)
           \<and> ((\<forall>i<length (faces s'). facesSaved s ! i) \<longrightarrow> disk s' = disk s)
           \<and> drawn (frame s')
               = drawn (camera e (video_reads s))
                 @ face_drawings (realFaceWidth s) (focalLength s) (faces s') [0..<length (faces s')]
                 @ [PutText (faceMessage (length (faces s'))) (10, 40)]
           \<and> (\<forall>i<length (faces s').
                 Rectangle (faces s' ! i) \<in> set (drawn (frame s'))
                 \<and> PutText (labelText (realFaceWidth s) (focalLength s) i (faces s' ! i))
                            (tl_point (faces s' ! i)) \<in> set (drawn (frame s')))
           \<and> facesSaved s' = replicate (length (faces s')) True"
proof -
  from assms(1) have cap: "camera e (video_reads s) \<noteq> EmptyMat" by (simp add: full_cycle_def)
  from processFrame_full_cycle [OF assms(1)] obtain s' where
    r: "processFrame e s = Returned s'"
    and f: "faces s' = detectMultiScale e (camera e (video_reads s))"
    and fl: "facesSaved s' = replicate (length (faces s')) True"
    and fr: "frame s' = draw (PutText (faceMessage (length (faces s'))) (10, 40))
                           (fold draw (face_drawings (realFaceWidth s) (focalLength s) (faces s')
                                         [0..<length (faces s')]) (camera e (video_reads s)))"
    and ir: "image_regions (disk s')
               = rev (unsaved (faces s') (vector_resize (facesSaved s) (length (faces s')) False)
                        [0..<length (faces s')]) @ image_regions (disk s)"
    and dk: "unsaved (faces s') (vector_resize (facesSaved s) (length (faces s')) False)
                        [0..<length (faces s')] = []
                \<longrightarrow> disk s' = disk s \<and> clock_reads s' = clock_reads s"
    by blast
  from f assms(2) have l: "length (faces s') = length (facesSaved s)" by simp
  then have vr: "vector_resize (facesSaved s) (length (faces s')) False = facesSaved s"
    by (simp add: vector_resize_same)
  have c3: "image_regions (disk s')
               = rev (unsaved (faces s') (facesSaved s) [0..<length (faces s')]) @ image_regions (disk s)"
    using ir vr by simp
  have c4: "(\<forall>i<length (faces s'). facesSaved s ! i) \<longrightarrow> disk s' = disk s"
  proof
    assume "\<forall>i<length (faces s'). facesSaved s ! i"
    then have "unsaved (faces s') (facesSaved s) [0..<length (faces s')] = []"
      by (intro unsaved_all_saved) simp
    with dk vr show "disk s' = disk s" by simp
  qed
  have c5: "drawn (frame s')
               = drawn (camera e (video_reads s))
                 @ face_drawings (realFaceWidth s) (focalLength s) (faces s') [0..<length (faces s')]
                 @ [PutText (faceMessage (length (faces s'))) (10, 40)]"
    using cap by (simp add: fr drawn_draw drawn_fold_draw fold_draw_nonempty)
  have c6: "\<forall>i<length (faces s').
                 Rectangle (faces s' ! i) \<in> set (drawn (frame s'))
                 \<and> PutText (labelText (realFaceWidth s) (focalLength s) i (faces s' ! i))
                            (tl_point (faces s' ! i)) \<in> set (drawn (frame s'))"
  proof (intro allI impI)
    fix i assume "i < length (faces s')"
    then have "i \<in> set [0..<length (faces s')]" by simp
    from face_drawings_mem [OF this, of "faces s'" "realFaceWidth s" "focalLength s"]
    show "Rectangle (faces s' ! i) \<in> set (drawn (frame s'))
                 \<and> PutText (labelText (realFaceWidth s) (focalLength s) i (faces s' ! i))
                            (tl_point (faces s' ! i)) \<in> set (drawn (frame s'))"
      by (simp add: c5)
  qed
  from r f c3 c4 c5 c6 fl show ?thesis by blast
qed

theorem saved_slots_not_rewritten_witness:
  "full_cycle demo_env demo_mixed
   \<and> length (detectMultiScale demo_env (camera demo_env (video_reads demo_mixed)))
       = length (facesSaved demo_mixed)
   \<and> facesSaved demo_mixed = [False, True, False]
   \<and> image_regions (disk (state_of (processFrame demo_env demo_mixed)))
       = [Rect 300 300 50 50, Rect 10 20 100 100] @ image_regions (disk demo_mixed)
   \<and> map fst (disk (state_of (processFrame demo_env demo_mixed)))
       = [''faces/face_1700000000_4.jpg'', ''faces/face_1700000000_3.jpg''] @ map fst (disk demo_mixed)
   \<and> drawn (frame (state_of (processFrame demo_env demo_mixed)))
       = [Rectangle (Rect 10 20 100 100), PutText ''Face 1 Dist: 112.00 cm'' (10, 20),
          Rectangle (Rect 200 20 200 200), PutText ''Face 2 Dist: 56.00 cm'' (200, 20),
          Rectangle (Rect 300 300 50 50), PutText ''Face 3 Dist: 224.00 cm'' (300, 300),
          PutText ''3 faces found'' (10, 40)]
   \<and> facesSaved (state_of (processFrame demo_env demo_mixed)) = [True, True, True]"
proof -
  note h = demo_mixed_cycle(1,2)
  from saved_slots_not_rewritten [OF h] obtain s' where
    r: "processFrame demo_env demo_mixed = Returned s'"
    and f: "faces s' = detectMultiScale demo_env (camera demo_env (video_reads demo_mixed))"
    and ir: "image_regions (disk s')
               = rev (unsaved (faces s') (facesSaved demo_mixed) [0..<length (faces s')])
                 @ image_regions (disk demo_mixed)"
    and fl: "facesSaved s' = replicate (length (faces s')) True"
    by blast
  have f3: "faces s' = [Rect 10 20 100 100, Rect 200 20 200 200, Rect 300 300 50 50]"
    using f by (simp add: demo_mixed_def demo_defs)
  have u: "[0..<length (faces s')] = [0, 1, 2]" using f3 by (simp add: upt_rec)
  have c1: "image_regions (disk (state_of (processFrame demo_env demo_mixed)))
       = [Rect 300 300 50 50, Rect 10 20 100 100] @ image_regions (disk demo_mixed)"
    using ir r by (simp add: u f3 unsaved_def demo_mixed_def)
  have c2: "facesSaved (state_of (processFrame demo_env demo_mixed)) = [True, True, True]"
    using fl r f3 by (simp add: numeral_3_eq_3)
  have c3: "map fst (disk (state_of (processFrame demo_env demo_mixed)))
       = [''faces/face_1700000000_4.jpg'', ''faces/face_1700000000_3.jpg''] @ map fst (disk demo_mixed)"
    using demo_mixed_cycle(3) by (simp add: demo_mixed_def demo_defs)
  have c4: "facesSaved demo_mixed = [False, True, False]" by (simp add: demo_mixed_def)
  from h c1 c2 c3 c4 demo_mixed_cycle(4) show ?thesis by blast
qed

text \<open>
  C5 (as amended). \<^verbatim>\<open>estimateDistance\<close> multiplies and divides in binary64, rounding
  twice. For finite fields whose exact product has a magnitude from \<open>2 ^ - 990\<close> up to
  but not including \<open>2 ^ 1023\<close>, and a pixel width above zero and below \<open>2 ^ 31\<close>, the
  result is a finite number within a relative error of \<open>2 ^ - 51\<close> of the reference
  width times the focal length, divided by the pixel width. With focal length 800
  and reference width 14, a width of 100 pixels gives exactly 112 (printed \<open>112.00\<close>)
  and a width of 200 pixels gives exactly 56 (printed \<open>56.00\<close>).
\<close>

theorem estimateDistance_rounded:
  "(0 < w \<and> w < 2 ^ 31 \<and> 2 powi (- 990) \<le> \<bar>rw * fl\<bar> \<and> \<bar>rw * fl\<bar> < 2 ^ 1023 \<longrightarrow>
      (\<exists>d. estimateDistance (Finite rw) (Finite fl) w = Finite d
           \<and> \<bar>d - (rw * fl) / of_int w\<bar> \<le> \<bar>(rw * fl) / of_int w\<bar> / 2 ^ 51))
   \<and> estimateDistance (Finite 14) (Finite 800) 100 = Finite 112
   \<and> show_fixed2 (estimateDistance (Finite 14) (Finite 800) 100) = ''112.00''
   \<and> estimateDistance (Finite 14) (Finite 800) 200 = Finite 56
   \<and> show_fixed2 (estimateDistance (Finite 14) (Finite 800) 200) = ''56.00''"
proof -
  have g: "\<exists>d. estimateDistance (Finite rw) (Finite fl) w = Finite d
           \<and> \<bar>d - (rw * fl) / of_int w\<bar> \<le> \<bar>(rw * fl) / of_int w\<bar> / 2 ^ 51"
    if w: "0 < w" "w < 2 ^ 31" and lo: "2 powi (- 990) \<le> \<bar>rw * fl\<bar>" and hi: "\<bar>rw * fl\<bar> < 2 ^ 1023"
  proof -
    define u :: real where "u = 1 / 2 ^ 53"
    define x where "x = rw * fl"
    define c where "c = real_of_int w"
    have u: "0 < u" "u \<le> 1" "4 * u = 1 / 2 ^ 51" by (simp_all add: u_def)
    have c: "0 < c" using w(1) by (simp add: c_def)
    from estimateDistance_in_range [OF w lo hi] obtain p d where
      pe: "\<bar>p - x\<bar> \<le> \<bar>x\<bar> * u"
      and d: "estimateDistance (Finite rw) (Finite fl) w = Finite d"
      and de: "\<bar>d - p / c\<bar> \<le> \<bar>p / c\<bar> * u"
      unfolding u_def x_def c_def by auto
    define X where "X = \<bar>x\<bar> / c"
    have X: "0 \<le> X" using c by (simp add: X_def)
    have "\<bar>p\<bar> \<le> \<bar>x\<bar> + \<bar>x\<bar> * u" using pe by linarith
    then have "\<bar>p\<bar> / c \<le> (\<bar>x\<bar> + \<bar>x\<bar> * u) / c" using c by (intro divide_right_mono) simp_all
    also have "\<dots> = X + X * u" by (simp add: X_def add_divide_distrib)
    finally have pc: "\<bar>p / c\<bar> \<le> X + X * u" using c by simp
    have "\<bar>p / c\<bar> * u \<le> (X + X * u) * u" using pc u by (intro mult_right_mono) simp_all
    also have "\<dots> = X * u + (X * u) * u" by (simp add: algebra_simps)
    also have "(X * u) * u \<le> (X * u) * 1" using X u by (intro mult_left_mono) simp_all
    finally have t1: "\<bar>p / c\<bar> * u \<le> 2 * (X * u)" by simp
    have "p / c - x / c = (p - x) / c" by (simp add: diff_divide_distrib)
    then have "\<bar>p / c - x / c\<bar> = \<bar>p - x\<bar> / c" using c by simp
    also have "\<dots> \<le> (\<bar>x\<bar> * u) / c" using pe c by (intro divide_right_mono) simp_all
    also have "\<dots> = X * u" by (simp add: X_def)
    finally have t2: "\<bar>p / c - x / c\<bar> \<le> X * u" .
    have "\<bar>d - x / c\<bar> \<le> \<bar>d - p / c\<bar> + \<bar>p / c - x / c\<bar>" by linarith
    also have "\<dots> \<le> 2 * (X * u) + X * u" using de t1 t2 by linarith
    also have "\<dots> \<le> X * (4 * u)" using X u by (simp add: algebra_simps)
    also have "\<dots> = \<bar>x / c\<bar> / 2 ^ 51" using c unfolding u(3) by (simp add: X_def)
    finally have "\<bar>d - x / c\<bar> \<le> \<bar>x / c\<bar> / 2 ^ 51" .
    with d show ?thesis unfolding x_def c_def by blast
  qed
  have "show_fixed2 (Finite 112) = ''112.00''" "show_fixed2 (Finite 56) = ''56.00''"
    by (simp_all add: fixed2_eval)
  with g demo_distances(1,2) show ?thesis by simp
qed

theorem estimateDistance_rounded_witness:
  "(0::int) < 50 \<and> (50::int) < 2 ^ 31
   \<and> 2 powi (- 990) \<le> \<bar>14 * 800 :: real\<bar> \<and> \<bar>14 * 800 :: real\<bar> < 2 ^ 1023
   \<and> estimateDistance (Finite 14) (Finite 800) 50 = Finite 224
   \<and> \<bar>224 - (14 * 800) / of_int 50 :: real\<bar> \<le> \<bar>(14 * 800) / of_int 50\<bar> / 2 ^ 51
   \<and> show_fixed2 (estimateDistance (Finite 14) (Finite 800) 50) = ''224.00''"
proof -
  have h: "(0::int) < 50 \<and> (50::int) < 2 ^ 31
      \<and> 2 powi (- 990) \<le> \<bar>14 * 800 :: real\<bar> \<and> \<bar>14 * 800 :: real\<bar> < 2 ^ 1023"
    by (simp add: power_int_minus)
  with estimateDistance_rounded [of 50 14 800] obtain d where
    d: "estimateDistance (Finite 14) (Finite 800) 50 = Finite d"
    and e: "\<bar>d - (14 * 800) / of_int 50\<bar> \<le> \<bar>(14 * 800) / of_int 50\<bar> / 2 ^ 51"
    by blast
  from d demo_distances(3) have "d = 224" by simp
  moreover have "show_fixed2 (Finite 224) = ''224.00''" by (simp add: fixed2_eval)
  ultimately show ?thesis using h e demo_distances(3) by simp
qed

text \<open>The quotient of the claim is the exact one. At a width of 64000 pixels the
  exact quotient is 7/40, which is no binary64 number: the function returns the
  nearest one, which lies below and is printed \<open>0.17\<close>, where 7/40 would be printed
  \<open>0.18\<close>. With two fields of \<open>2 ^ 512\<close> the product overflows and the result is
  infinite.\<close>

theorem estimateDistance_exact_counterexample:
  "estimateDistance (Finite 14) (Finite 800) 64000 = Finite (3152519739159347 / 18014398509481984)
   \<and> estimateDistance (Finite 14) (Finite 800) 64000 \<noteq> Finite ((14 * 800) / 64000)
   \<and> show_fixed2 (estimateDistance (Finite 14) (Finite 800) 64000) = ''0.17''
   \<and> show_fixed2 (Finite ((14 * 800) / 64000)) = ''0.18''
   \<and> estimateDistance (Finite (2 ^ 512)) (Finite (2 ^ 512)) 100 = PlusInf"
proof -
  have a: "estimateDistance (Finite 14) (Finite 800) 64000
             = Finite (3152519739159347 / 18014398509481984)"
    by (simp add: estimateDistance_def dbl_mul_def dbl_div_def dbl_of_int_def round64_numeral
        round64_7_40)
  have b: "show_fixed2 (Finite (3152519739159347 / 18014398509481984)) = ''0.17''"
    by (simp add: fixed2_eval)
  have c: "show_fixed2 (Finite ((14 * 800) / 64000)) = ''0.18''"
    by (simp add: fixed2_eval)
  have d: "estimateDistance (Finite (2 ^ 512)) (Finite (2 ^ 512)) 100 = PlusInf"
    by (simp add: estimateDistance_def dbl_mul_def dbl_div_def dbl_of_int_def round64_numeral
        round64_overflow signed_inf_def)
  from a b c d show ?thesis by simp
qed

text \<open>
  C6 (as amended). For a positive focal length and a positive reference width whose
  exact product is at least \<open>2 ^ - 990\<close> and below \<open>2 ^ 1023\<close>, \<^verbatim>\<open>estimateDistance\<close> is
  strictly decreasing on pixel widths above zero and below \<open>2 ^ 31\<close>: a wider face is
  estimated strictly nearer.
\<close>

theorem estimateDistance_decreasing_in_range:
  assumes "0 < rw" and "0 < fl"
    and "2 powi (- 990) \<le> rw * fl" and "rw * fl < 2 ^ 1023"
    and "0 < a" and "a < b" and "b < 2 ^ 31"
  shows "dbl_less (estimateDistance (Finite rw) (Finite fl) b)
                  (estimateDistance (Finite rw) (Finite fl) a)"
proof -
  define u :: real where "u = 1 / 2 ^ 53"
  define ra where "ra = real_of_int a"
  define rb where "rb = real_of_int b"
  have u: "0 < u" "u < 1" by (simp_all add: u_def)
  from assms(1,2) have x0: "0 < rw * fl" by simp
  then have ax: "\<bar>rw * fl\<bar> = rw * fl" by simp
  from assms(5-7) have wa: "0 < a" "a < 2 ^ 31" and wb: "0 < b" "b < 2 ^ 31" by simp_all
  have lo: "2 powi (- 990) \<le> \<bar>rw * fl\<bar>" and hi: "\<bar>rw * fl\<bar> < 2 ^ 1023"
    unfolding ax using assms(3,4) by simp_all
  from estimateDistance_in_range [OF wa lo hi] x0 obtain p da where
    p: "round64 (rw * fl) = Finite p" and pp: "0 < p"
    and da: "estimateDistance (Finite rw) (Finite fl) a = Finite da"
    and dae: "\<bar>da - p / ra\<bar> \<le> \<bar>p / ra\<bar> * u"
    unfolding u_def ra_def by auto
  from estimateDistance_in_range [OF wb lo hi] p obtain db where
    db: "estimateDistance (Finite rw) (Finite fl) b = Finite db"
    and dbe: "\<bar>db - p / rb\<bar> \<le> \<bar>p / rb\<bar> * u"
    unfolding u_def rb_def by auto
  have ra: "0 < ra" "ra + 1 \<le> rb" "2 * ra + 1 < 2 ^ 53"
  proof -
    show "0 < ra" using assms(5) by (simp add: ra_def)
    from assms(6) have "a + 1 \<le> b" by simp
    then have "real_of_int (a + 1) \<le> real_of_int b" by (simp only: of_int_le_iff)
    then show "ra + 1 \<le> rb" by (simp add: ra_def rb_def)
    from wa(2) have "2 * a + 1 < 2 ^ 53" by simp
    then have "real_of_int (2 * a + 1) < real_of_int (2 ^ 53)" by (simp only: of_int_less_iff)
    then show "2 * ra + 1 < 2 ^ 53" by (simp add: ra_def)
  qed
  then have rb: "0 < rb" by linarith
  have k: "ra * (1 + u) < rb * (1 - u)"
  proof -
    have "(2 * ra + 1) * u < 1" using ra(3) by (simp add: u_def)
    then have "ra * (1 + u) < (ra + 1) * (1 - u)" by (simp add: algebra_simps)
    also have "\<dots> \<le> rb * (1 - u)" using ra(2) u by (intro mult_right_mono) simp_all
    finally show ?thesis .
  qed
  have pa: "0 < p / ra" and pb: "0 < p / rb" using pp ra(1) rb by simp_all
  from pa pb have ab: "\<bar>p / ra\<bar> = p / ra" "\<bar>p / rb\<bar> = p / rb"
    by (simp_all only: abs_of_pos)
  have "db \<le> p / rb + (p / rb) * u" using dbe unfolding ab by linarith
  also have "\<dots> = p * (1 + u) / rb" by (simp add: algebra_simps add_divide_distrib)
  also have "\<dots> < p * (1 - u) / ra"
  proof -
    have "p * (ra * (1 + u)) < p * (rb * (1 - u))" using k pp by (intro mult_strict_left_mono)
    then have "p * (1 + u) * ra < p * (1 - u) * rb" by (simp add: mult_ac)
    then show ?thesis using ra(1) rb by (simp add: divide_less_eq less_divide_eq mult_ac)
  qed
  also have "\<dots> = p / ra - (p / ra) * u" by (simp add: algebra_simps diff_divide_distrib)
  also have "\<dots> \<le> da" using dae unfolding ab by linarith
  finally have "db < da" .
  then show ?thesis by (simp add: da db dbl_less_def)
qed

theorem estimateDistance_decreasing_in_range_witness:
  "(0::real) < 14 \<and> (0::real) < 800
   \<and> 2 powi (- 990) \<le> (14 * 800 :: real) \<and> (14 * 800 :: real) < 2 ^ 1023
   \<and> (0::int) < 100 \<and> (100::int) < 200 \<and> (200::int) < 2 ^ 31
   \<and> estimateDistance (Finite 14) (Finite 800) 100 = Finite 112
   \<and> estimateDistance (Finite 14) (Finite 800) 200 = Finite 56
   \<and> dbl_less (Finite 56) (Finite 112)"
proof -
  have h: "(0::real) < 14" "(0::real) < 800"
    "2 powi (- 990) \<le> (14 * 800 :: real)" "(14 * 800 :: real) < 2 ^ 1023"
    "(0::int) < 100" "(100::int) < 200" "(200::int) < 2 ^ 31"
    by (simp_all add: power_int_minus)
  from estimateDistance_decreasing_in_range [OF h]
  have "dbl_less (Finite 56) (Finite 112)" by (simp only: demo_distances)
  with h demo_distances(1,2) show ?thesis by blast
qed

text \<open>Outside the range the estimates of two widths can coincide: with two fields
  of \<open>2 ^ 512\<close> the product overflows and both estimates are infinite; with two fields
  of \<open>2 ^ - 537\<close> the product is the least positive binary64 number and both estimates
  are zero.\<close>

theorem estimateDistance_decreasing_counterexample:
  "round64 (2 ^ 512) = Finite (2 ^ 512)
   \<and> estimateDistance (Finite (2 ^ 512)) (Finite (2 ^ 512)) 100 = PlusInf
   \<and> estimateDistance (Finite (2 ^ 512)) (Finite (2 ^ 512)) 200 = PlusInf
   \<and> \<not> dbl_less (estimateDistance (Finite (2 ^ 512)) (Finite (2 ^ 512)) 200)
                  (estimateDistance (Finite (2 ^ 512)) (Finite (2 ^ 512)) 100)
   \<and> round64 (2 powi (- 537)) = Finite (2 powi (- 537))
   \<and> estimateDistance (Finite (2 powi (- 537))) (Finite (2 powi (- 537))) 2 = Finite 0
   \<and> estimateDistance (Finite (2 powi (- 537))) (Finite (2 powi (- 537))) 4 = Finite 0
   \<and> \<not> dbl_less (estimateDistance (Finite (2 powi (- 537))) (Finite (2 powi (- 537))) 4)
                  (estimateDistance (Finite (2 powi (- 537))) (Finite (2 powi (- 537))) 2)"
proof -
  have r1: "round64 (2 ^ 512) = Finite (2 ^ 512)"
    using round64_exact [of 1 512] by simp
  have o: "estimateDistance (Finite (2 ^ 512)) (Finite (2 ^ 512)) 100 = PlusInf"
    "estimateDistance (Finite (2 ^ 512)) (Finite (2 ^ 512)) 200 = PlusInf"
    by (simp_all add: estimateDistance_def dbl_mul_def dbl_div_def dbl_of_int_def round64_numeral
        round64_overflow signed_inf_def)
  have r2: "round64 (2 powi (- 537)) = Finite (2 powi (- 537))"
    using round64_exact [of 1 "- 537"] by simp
  define m :: real where "m = 2 powi (- 537)"
  have m0: "m \<noteq> 0" by (simp add: m_def)
  have mm: "m * m = 2 powi (- 1074)"
    unfolding m_def using power_int_add [of "2::real" "- 537" "- 537"] by simp
  have pm: "round64 (m * m) = Finite (2 powi (- 1074))"
    unfolding mm using round64_exact [of 1 "- 1074"] by simp
  have pz: "(2::real) powi (- 1074) \<noteq> 0" by simp
  have q2: "(2::real) powi (- 1074) / 2 = 2 powi (- 1075)"
    using power_int_add [of "2::real" "- 1075" 1] by simp
  have q4: "(2::real) powi (- 1074) / 4 \<le> 2 powi (- 1075)"
  proof -
    have "(2::real) powi (- 1074) / 4 = 2 powi (- 1075) / 2" using q2 by simp
    also have "\<dots> \<le> 2 powi (- 1075)" by simp
    finally show ?thesis .
  qed
  have d2: "round64 (2 powi (- 1074) / 2) = Finite 0"
    unfolding q2 by (rule round64_tiny) simp_all
  have d4: "round64 (2 powi (- 1074) / 4) = Finite 0"
    using q4 by (intro round64_tiny) simp_all
  have w: "dbl_of_int 2 = Finite 2" "dbl_of_int 4 = Finite 4"
    by (simp_all add: dbl_of_int_def round64_numeral)
  have z: "estimateDistance (Finite m) (Finite m) 2 = Finite 0"
    "estimateDistance (Finite m) (Finite m) 4 = Finite 0"
    using m0 pz d2 d4
    by (simp_all add: estimateDistance_def dbl_mul_Finite pm w dbl_div_Finite del: power_int_eq_0_iff)
  from r1 o r2 z show ?thesis unfolding m_def by (simp add: dbl_less_def)
qed

text \<open>
  C7. \<^verbatim>\<open>processFrame\<close> throws the capture error exactly when the camera read
  yields an empty frame. The camera is read once, and the call ends there: frame
  counter, detections, saved flags, video sink and disk are as before.
\<close>

theorem processFrame_capture_error:
  "(thrown (processFrame e s) = Some CaptureFailed \<longleftrightarrow> camera e (video_reads s) = EmptyMat)
   \<and> (camera e (video_reads s) = EmptyMat \<longrightarrow>
        processFrame e s =
          Thrown CaptureFailed
            (s\<lparr>frame := EmptyMat, video_reads := video_reads s + 1,
               cerr := cerr s @ [''Error: Could not read a frame from the camera.'']\<rparr>)
        \<and> frameCounter (state_of (processFrame e s)) = frameCounter s
        \<and> faces (state_of (processFrame e s)) = faces s
        \<and> facesSaved (state_of (processFrame e s)) = facesSaved s
        \<and> videoWriter (state_of (processFrame e s)) = videoWriter s
        \<and> disk (state_of (processFrame e s)) = disk s)"
proof -
  have a: "thrown (processFrame e s) = Some CaptureFailed \<longleftrightarrow> camera e (video_reads s) = EmptyMat"
    by (simp add: processFrame_thrown CaptureFailed_def)
  have b: "camera e (video_reads s) = EmptyMat \<longrightarrow>
        processFrame e s =
          Thrown CaptureFailed
            (s\<lparr>frame := EmptyMat, video_reads := video_reads s + 1,
               cerr := cerr s @ [''Error: Could not read a frame from the camera.'']\<rparr>)"
    by (simp add: processFrame_capture_failed)
  from a b show ?thesis by auto
qed

theorem processFrame_capture_error_witness:
  "camera demo_env (video_reads (demo_start\<lparr>video_reads := 3\<rparr>)) = EmptyMat
   \<and> thrown (processFrame demo_env (demo_start\<lparr>video_reads := 3\<rparr>)) = Some CaptureFailed
   \<and> frameCounter (state_of (processFrame demo_env (demo_start\<lparr>video_reads := 3\<rparr>))) = 0
   \<and> videoWriter (state_of (processFrame demo_env (demo_start\<lparr>video_reads := 3\<rparr>))) = []
   \<and> video_reads (state_of (processFrame demo_env (demo_start\<lparr>video_reads := 3\<rparr>))) = 4
   \<and> thrown (processFrame demo_env demo_start) \<noteq> Some CaptureFailed"
proof -
  have h: "camera demo_env (video_reads (demo_start\<lparr>video_reads := 3\<rparr>)) = EmptyMat"
    by (simp add: demo_env_def demo_start_def)
  have n: "camera demo_env (video_reads demo_start) \<noteq> EmptyMat"
    by (simp add: demo_env_def demo_start_def)
  from processFrame_capture_error [of demo_env "demo_start\<lparr>video_reads := 3\<rparr>"] h
  have "processFrame demo_env (demo_start\<lparr>video_reads := 3\<rparr>) =
          Thrown CaptureFailed
            (demo_start\<lparr>video_reads := 3, frame := EmptyMat, video_reads := 3 + 1,
               cerr := cerr (demo_start\<lparr>video_reads := 3\<rparr>) @ [''Error: Could not read a frame from the camera.'']\<rparr>)"
    by simp
  moreover from processFrame_capture_error [of demo_env demo_start] n
  have "thrown (processFrame demo_env demo_start) \<noteq> Some CaptureFailed" by blast
  ultimately show ?thesis using h by (simp add: demo_start_def)
qed

text \<open>
  C8. \<^verbatim>\<open>getUniqueFilename\<close> creates the directory \<open>faces\<close> if no such path exists,
  reads the clock once, and returns \<open>faces/face_<seconds>.jpg\<close> if no such path exists,
  and otherwise \<open>faces/face_<seconds>_<k>.jpg\<close> for the least \<open>k\<close> from 1 on for which no
  such path exists (\<open>k\<close> is at most the number of entries on the disk). The returned path
  exists neither before nor after the call. When the returned file is written and
  the function is called again, the second path differs from the first and does not
  exist either, whatever the clock shows; within the same second it carries a numeric
  suffix.
\<close>

theorem getUniqueFilename_fresh_name:
  assumes "getUniqueFilename e s = (name1, s1)"
    and "getUniqueFilename e (s1\<lparr>disk := imwrite (disk s1) name1 m r\<rparr>) = (name2, s2)"
  shows "s1 = s\<lparr>disk := create_directory (disk s) ''faces'', clock_reads := clock_reads s + 1\<rparr>
         \<and> \<not> fs_exists (disk s1) name1 \<and> \<not> fs_exists (disk s) name1
         \<and> (if fs_exists (disk s1) (''faces/face_'' @ to_string (system_clock e (clock_reads s)) @ ''.jpg'')
             then \<exists>k\<ge>1. name1 = ''faces/face_'' @ to_string (system_clock e (clock_reads s)) @ ''_''
                                    @ to_string k @ ''.jpg''
                    \<and> (\<forall>j. 1 \<le> j \<and> j < k \<longrightarrow>
                           fs_exists (disk s1) (suffixed (system_clock e (clock_reads s)) j))
                    \<and> k \<le> int (length (disk s1))
             else name1 = ''faces/face_'' @ to_string (system_clock e (clock_reads s)) @ ''.jpg'')
         \<and> name2 \<noteq> name1 \<and> \<not> fs_exists (disk s2) name2 \<and> fs_exists (disk s2) name1
         \<and> (system_clock e (clock_reads s + 1) = system_clock e (clock_reads s) \<longrightarrow>
              (\<exists>k\<ge>1. name2 = suffixed (system_clock e (clock_reads s)) k))"
proof -
  let ?now = "system_clock e (clock_reads s)"
  let ?plain = "''faces/face_'' @ to_string ?now @ ''.jpg''"
  let ?d1 = "create_directory (disk s) ''faces''"
  from assms(1) have s1: "s1 = s\<lparr>disk := ?d1, clock_reads := clock_reads s + 1\<rparr>"
    using getUniqueFilename_state [of e s] by simp
  then have d1: "disk s1 = ?d1" by simp
  from assms(1) have n1: "name1 = snd (uniqueLoop ?d1 ?now 1 ?plain)"
    by (simp add: getUniqueFilename_def Let_def)
  have fresh1: "\<not> fs_exists (disk s1) name1"
    using getUniqueFilename_fresh [of e s] assms(1) by simp
  then have fresh0: "\<not> fs_exists (disk s) name1"
    using fs_exists_create_directory [of "disk s" name1 "''faces''"] d1 by auto
  have shape0: "if fs_exists ?d1 ?plain
             then \<exists>k\<ge>1. name1 = ''faces/face_'' @ to_string ?now @ ''_'' @ to_string k @ ''.jpg''
                    \<and> (\<forall>j. 1 \<le> j \<and> j < k \<longrightarrow> fs_exists ?d1 (suffixed ?now j))
                    \<and> k \<le> int (length ?d1)
             else name1 = ?plain"
  proof (cases "fs_exists ?d1 ?plain")
    case False
    with uniqueLoop_shape [of ?d1 ?plain ?now 1] n1 show ?thesis by auto
  next
    case True
    with uniqueLoop_shape [of ?d1 ?plain ?now 1] obtain k where k: "1 \<le> k"
      and u: "uniqueLoop ?d1 ?now 1 ?plain = (k + 1, suffixed ?now k)"
      and all: "\<forall>j. 1 \<le> j \<and> j < k \<longrightarrow> fs_exists ?d1 (suffixed ?now j)"
      by blast
    have "k \<le> int (length ?d1)"
    proof -
      have "?plain \<in> set (map fst ?d1)" using True by (simp add: fs_exists_def)
      moreover have "suffixed ?now ` {1..<k} \<subseteq> set (map fst ?d1)"
        using all by (auto simp: fs_exists_def)
      moreover have "?plain \<notin> suffixed ?now ` {1..<k}" by (auto simp: suffixed_def)
      ultimately have sub: "insert ?plain (suffixed ?now ` {1..<k}) \<subseteq> set (map fst ?d1)"
        by blast
      have inj: "inj_on (suffixed ?now) {1..<k}" by (auto simp: inj_on_def dest: suffixed_inj)
      have "card (insert ?plain (suffixed ?now ` {1..<k})) = Suc (card {1..<k})"
        using \<open>?plain \<notin> suffixed ?now ` {1..<k}\<close> inj by (simp add: card_image)
      moreover have "card (insert ?plain (suffixed ?now ` {1..<k})) \<le> card (set (map fst ?d1))"
        using sub by (intro card_mono) simp_all
      moreover have "card (set (map fst ?d1)) \<le> length ?d1" using card_length [of "map fst ?d1"] by simp
      ultimately show ?thesis using k by simp
    qed
    with True k u all n1 show ?thesis by (auto simp: suffixed_def)
  qed
  have shape1: "if fs_exists (disk s1) ?plain
             then \<exists>k\<ge>1. name1 = ''faces/face_'' @ to_string ?now @ ''_'' @ to_string k @ ''.jpg''
                    \<and> (\<forall>j. 1 \<le> j \<and> j < k \<longrightarrow> fs_exists (disk s1) (suffixed ?now j))
                    \<and> k \<le> int (length (disk s1))
             else name1 = ?plain"
    unfolding d1 by (rule shape0)
  let ?s1w = "s1\<lparr>disk := imwrite (disk s1) name1 m r\<rparr>"
  from assms(2) have s2: "s2 = ?s1w\<lparr>disk := create_directory (disk ?s1w) ''faces'',
                                    clock_reads := clock_reads ?s1w + 1\<rparr>"
    using getUniqueFilename_state [of e ?s1w] by simp
  have fresh2: "\<not> fs_exists (disk s2) name2"
    using getUniqueFilename_fresh [of e ?s1w] assms(2) by simp
  have ex1: "fs_exists (disk s2) name1"
    by (simp add: s2 fs_exists_create_directory fs_exists_imwrite)
  from fresh2 ex1 have ne: "name2 \<noteq> name1" by auto
  have same: "\<exists>k\<ge>1. name2 = suffixed ?now k"
    if eq: "system_clock e (clock_reads s + 1) = ?now"
  proof -
    let ?d2 = "create_directory (imwrite ?d1 name1 m r) ''faces''"
    have n2: "name2 = snd (uniqueLoop ?d2 ?now 1 ?plain)"
      using assms(2) eq by (simp add: getUniqueFilename_def Let_def s1)
    have "fs_exists ?d2 ?plain"
    proof (cases "fs_exists ?d1 ?plain")
      case True
      then show ?thesis by (simp add: fs_exists_create_directory fs_exists_imwrite_other)
    next
      case False
      with shape0 have "name1 = ?plain" by simp
      then show ?thesis by (simp add: fs_exists_create_directory fs_exists_imwrite)
    qed
    with uniqueLoop_shape [of ?d2 ?plain ?now 1] n2 show ?thesis by auto
  qed
  from same have same': "system_clock e (clock_reads s + 1) = ?now \<longrightarrow>
              (\<exists>k\<ge>1. name2 = suffixed ?now k)" by blast
  show ?thesis
    by (intro conjI) (fact s1 fresh1 fresh0 shape1 ne fresh2 ex1 same')+
qed

theorem getUniqueFilename_fresh_name_witness:
  "getUniqueFilename demo_env demo_start = (''faces/face_1700000000.jpg'', demo_named)
   \<and> getUniqueFilename demo_env
        (demo_named\<lparr>disk := imwrite (disk demo_named) ''faces/face_1700000000.jpg''
                                  (Image 0 []) (Rect 10 20 100 100)\<rparr>)
       = (''faces/face_1700000000_1.jpg'', demo_named2)
   \<and> ''faces/face_1700000000_1.jpg'' \<noteq> ''faces/face_1700000000.jpg''
   \<and> \<not> fs_exists (disk demo_named) ''faces/face_1700000000.jpg''
   \<and> \<not> fs_exists (disk demo_named2) ''faces/face_1700000000_1.jpg''
   \<and> fs_exists (disk demo_named2) ''faces/face_1700000000.jpg''"
proof -
  have h1: "getUniqueFilename demo_env demo_start = (''faces/face_1700000000.jpg'', demo_named)"
    by (simp add: demo_named_def demo_defs run_eval)
  have h2: "getUniqueFilename demo_env
        (demo_named\<lparr>disk := imwrite (disk demo_named) ''faces/face_1700000000.jpg''
                                  (Image 0 []) (Rect 10 20 100 100)\<rparr>)
       = (''faces/face_1700000000_1.jpg'', demo_named2)"
    by (simp add: demo_named_def demo_named2_def demo_defs run_eval)
  from getUniqueFilename_fresh_name [OF h1 h2] h1 h2 show ?thesis by blast
qed

text \<open>
  C9. The saved-flag sequence is as long as the detection list when the detector
  has been constructed, and every call of \<^verbatim>\<open>processFrame\<close> keeps it so, whether
  the frame is skipped, fully processed, or the call throws; hence it holds after
  any number of calls. Annotation never reads a saved flag beyond the end of the
  sequence.
\<close>

theorem facesSaved_length_invariant:
  "(FaceDetector_new camera_opened cascade_loaded writer_opened fl rw speedUpFactor d = Inr s0 \<longrightarrow>
      length (facesSaved s0) = length (faces s0)
      \<and> length (facesSaved (state_of (run e n s0))) = length (faces (state_of (run e n s0)))
      \<and> thrown (run e n s0) \<noteq> Some index_out_of_range)
   \<and> (length (facesSaved s) = length (faces s) \<longrightarrow>
        length (facesSaved (state_of (processFrame e s))) = length (faces (state_of (processFrame e s)))
        \<and> thrown (annotateFrame e s) = None)
   \<and> thrown (processFrame e s) \<noteq> Some index_out_of_range"
proof -
  have a: "FaceDetector_new camera_opened cascade_loaded writer_opened fl rw speedUpFactor d = Inr s0 \<longrightarrow>
      length (facesSaved s0) = length (faces s0)"
    by (auto simp: FaceDetector_new_def split: if_splits)
  have c: "thrown (processFrame e s) \<noteq> Some index_out_of_range"
    by (simp add: processFrame_thrown CaptureFailed_def)
  have b: "length (facesSaved s) = length (faces s) \<longrightarrow> thrown (annotateFrame e s) = None"
  proof
    assume "length (facesSaved s) = length (faces s)"
    from annotateFrame_returns [OF this, of e] obtain s' where "annotateFrame e s = Returned s'"
      by blast
    then show "thrown (annotateFrame e s) = None" by simp
  qed
  from a b c run_lengths [of s0 e n] processFrame_lengths [of s e] show ?thesis by blast
qed

theorem facesSaved_length_invariant_witness:
  "FaceDetector_new True True True (Finite 800) (Finite 14) 1 [(''faces'', Directory)] = Inr demo_start
   \<and> length (facesSaved demo_start) = length (faces demo_start)
   \<and> length (facesSaved (state_of (run demo_env 2 demo_start)))
       = length (faces (state_of (run demo_env 2 demo_start)))
   \<and> thrown (run demo_env 2 demo_start) \<noteq> Some index_out_of_range
   \<and> length (facesSaved (state_of (processFrame demo_env demo_start)))
       = length (faces (state_of (processFrame demo_env demo_start)))
   \<and> thrown (annotateFrame demo_env demo_start) = None
   \<and> thrown (processFrame demo_env demo_start) \<noteq> Some index_out_of_range"
proof -
  have h: "FaceDetector_new True True True (Finite 800) (Finite 14) 1 [(''faces'', Directory)] = Inr demo_start"
    by (simp add: FaceDetector_new_def demo_start_def)
  have l: "length (facesSaved demo_start) = length (faces demo_start)"
    by (simp add: demo_start_def)
  from facesSaved_length_invariant
         [of True True True "Finite 800" "Finite 14" 1 "[(''faces'', Directory)]" demo_start demo_env 2 demo_start] h l
  show ?thesis by blast
qed

text \<open>
  C10. When the saved-flag sequence is as long as the detection list,
  \<^verbatim>\<open>annotateFrame\<close> returns with every flag set, and the image files it wrote are
  the slots whose flag was not set, one file each, so no more files than slots. A
  fully processed frame leaves every flag set, a call that is not a full cycle leaves
  flags and disk alone, and a full cycle that starts with every flag set and detects
  as many faces as there are flags leaves the disk as it was.
\<close>

theorem all_flags_set_after_annotation:
  "(length (facesSaved s) = length (faces s) \<longrightarrow>
      (\<exists>s'. annotateFrame e s = Returned s'
         \<and> length (facesSaved s') = length (faces s') \<and> (\<forall>b\<in>set (facesSaved s'). b)
         \<and> image_regions (disk s')
             = rev (unsaved (faces s) (facesSaved s) [0..<length (faces s)]) @ image_regions (disk s)
         \<and> length (image_regions (disk s')) \<le> length (image_regions (disk s)) + length (faces s)))
   \<and> (full_cycle e t \<longrightarrow>
        (\<exists>t'. processFrame e t = Returned t'
           \<and> length (facesSaved t') = length (faces t') \<and> (\<forall>b\<in>set (facesSaved t'). b)))
   \<and> (\<not> full_cycle e t \<longrightarrow>
        facesSaved (state_of (processFrame e t)) = facesSaved t
        \<and> faces (state_of (processFrame e t)) = faces t
        \<and> disk (state_of (processFrame e t)) = disk t)
   \<and> (full_cycle e t \<and> (\<forall>b\<in>set (facesSaved t). b)
        \<and> length (detectMultiScale e (camera e (video_reads t))) = length (facesSaved t) \<longrightarrow>
        disk (state_of (processFrame e t)) = disk t)"
proof -
  have p1: "\<exists>s'. annotateFrame e s = Returned s'
         \<and> length (facesSaved s') = length (faces s') \<and> (\<forall>b\<in>set (facesSaved s'). b)
         \<and> image_regions (disk s')
             = rev (unsaved (faces s) (facesSaved s) [0..<length (faces s)]) @ image_regions (disk s)
         \<and> length (image_regions (disk s')) \<le> length (image_regions (disk s)) + length (faces s)"
    if len: "length (facesSaved s) = length (faces s)"
  proof -
    from annotateFrame_returns [OF len, of e] obtain s' where
      a: "annotateFrame e s = Returned s'" and ss: "same_settings s s'"
      and fl: "facesSaved s' = replicate (length (faces s)) True"
      and ir: "image_regions (disk s')
               = rev (unsaved (faces s) (facesSaved s) [0..<length (faces s)]) @ image_regions (disk s)"
      by blast
    from ss have f: "faces s' = faces s" by (simp add: same_settings_def)
    have "length (image_regions (disk s')) \<le> length (image_regions (disk s)) + length (faces s)"
      using ir length_unsaved [of "faces s" "facesSaved s" "[0..<length (faces s)]"] by simp
    with a f fl ir show ?thesis by simp
  qed
  have p2: "\<exists>t'. processFrame e t = Returned t'
           \<and> length (facesSaved t') = length (faces t') \<and> (\<forall>b\<in>set (facesSaved t'). b)"
    if fc: "full_cycle e t"
  proof -
    from processFrame_full_cycle [OF fc] obtain t' where
      "processFrame e t = Returned t'" and "facesSaved t' = replicate (length (faces t')) True"
      by blast
    then show ?thesis by simp
  qed
  have p4: "disk (state_of (processFrame e t)) = disk t"
    if fc: "full_cycle e t" and all: "\<forall>b\<in>set (facesSaved t). b"
      and n: "length (detectMultiScale e (camera e (video_reads t))) = length (facesSaved t)"
  proof -
    from processFrame_full_cycle [OF fc] obtain t' where
      r: "processFrame e t = Returned t'"
      and f: "faces t' = detectMultiScale e (camera e (video_reads t))"
      and dk: "unsaved (faces t') (vector_resize (facesSaved t) (length (faces t')) False)
                        [0..<length (faces t')] = []
                \<longrightarrow> disk t' = disk t \<and> clock_reads t' = clock_reads t"
      by blast
    from f n have l: "length (faces t') = length (facesSaved t)" by simp
    have "unsaved (faces t') (facesSaved t) [0..<length (facesSaved t)] = []"
      using all by (intro unsaved_all_saved) (simp add: all_true_nth)
    with dk l have "disk t' = disk t" by (simp add: vector_resize_same)
    with r show ?thesis by simp
  qed
  from p1 p2 p4 processFrame_not_full [of e t] show ?thesis by blast
qed

theorem all_flags_set_after_annotation_witness:
  "length (facesSaved demo_after1) = length (faces demo_after1)
   \<and> full_cycle demo_env demo_after1
   \<and> facesSaved demo_after1 = [True, True]
   \<and> processFrame demo_env demo_after1 = Returned demo_after2
   \<and> facesSaved demo_after2 = [True, True, True]
   \<and> full_cycle demo_env demo_after2
   \<and> length (detectMultiScale demo_env (camera demo_env (video_reads demo_after2)))
       = length (facesSaved demo_after2)
   \<and> disk (state_of (processFrame demo_env demo_after2)) = disk demo_after2
   \<and> (\<exists>s'. annotateFrame demo_env demo_after1 = Returned s' \<and> facesSaved s' = [True, True]
          \<and> disk s' = disk demo_after1)"
proof -
  have h1: "length (facesSaved demo_after1) = length (faces demo_after1)"
    by (simp add: demo_defs)
  have h2: "\<forall>b\<in>set (facesSaved demo_after2). b" by (simp add: demo_defs)
  have h3: "length (detectMultiScale demo_env (camera demo_env (video_reads demo_after2)))
       = length (facesSaved demo_after2)"
    by (simp add: demo_defs)
  note fc = demo_full_cycles
  from all_flags_set_after_annotation [of demo_after1 demo_env demo_after2] fc(3) h2 h3
  have d: "disk (state_of (processFrame demo_env demo_after2)) = disk demo_after2" by blast
  have a: "\<exists>s'. annotateFrame demo_env demo_after1 = Returned s' \<and> facesSaved s' = [True, True]
          \<and> disk s' = disk demo_after1"
    by (simp add: demo_defs run_eval)
  have "facesSaved demo_after1 = [True, True]" "facesSaved demo_after2 = [True, True, True]"
    by (simp_all add: demo_defs)
  with h1 fc(2,3) h3 d a demo_cycle2 show ?thesis by blast
qed

end
